theory Spec2Isabelle
  imports Complex_Main "HOL-Library.Word" "HOL-Library.Sublist"
begin

section \<open>Python primitives used by main.py\<close>

text \<open>
  A Python \<open>str\<close> is modelled as a \<open>string\<close> (a list of characters, one per code
  point), an \<open>int\<close> as \<open>int\<close>, \<open>bytes\<close> as a list of 8-bit words.

  \<open>xs[lo:hi]\<close>: a negative bound counts from the end and is clamped at 0, a bound past
  the end is clamped at the length, and an empty range gives the empty sequence.
\<close>

definition slice_index :: "nat \<Rightarrow> int \<Rightarrow> nat" where
  "slice_index n k = (if k < 0 then nat (int n + k) else min (nat k) n)"

definition py_slice :: "'a list \<Rightarrow> int \<Rightarrow> int \<Rightarrow> 'a list" where
  "py_slice xs lo hi =
     (let a = slice_index (length xs) lo; b = slice_index (length xs) hi
      in take (b - a) (drop a xs))"

text \<open>
  \<open>xs[i]\<close>: a negative index counts from the end; an index out of range raises
  \<open>IndexError\<close>. Exceptions are values of type \<open>error\<close>: the ones main.py or the
  interpreter raise by themselves, and \<open>LibraryError\<close> for whatever a library or a remote
  call raises (\<open>requests\<close>, the Qdrant client, the document parsers), with its message.
\<close>

datatype error =
    ValueError
  | IndexError
  | HTTPException nat string
  | LibraryError string

definition py_index :: "'a list \<Rightarrow> int \<Rightarrow> error + 'a" where
  "py_index xs i =
     (if 0 \<le> i \<and> i < int (length xs) then Inr (xs ! nat i)
      else if i < 0 \<and> - i \<le> int (length xs) then Inr (xs ! nat (int (length xs) + i))
      else Inl IndexError)"

text \<open>
  \<open>range(0, stop, step)\<close>: a step of 0 raises \<open>ValueError\<close>; with a negative step and
  \<open>stop \<ge> 0\<close> the range is empty.
\<close>

definition py_range0 :: "nat \<Rightarrow> int \<Rightarrow> error + int list" where
  "py_range0 stop step =
     (if step = 0 then Inl ValueError
      else if step < 0 then Inr []
      else Inr (map (\<lambda>k. int k * step) [0..<nat ((int stop + step - 1) div step)]))"

text \<open>
  Strings. A character is a code point below 256, so \<open>str.lower\<close> maps the capital letters
  of ASCII and Latin-1 and \<open>str.strip\<close> removes the white space of that range
  (\<open>\t\<close>, \<open>\n\<close>, \<open>\v\<close>, \<open>\f\<close>, \<open>\r\<close>, the separators \<open>0x1c\<close> to \<open>0x1f\<close>, the space, \<open>0x85\<close>
  and \<open>0xa0\<close>) from both ends.
\<close>

definition py_isspace :: "char \<Rightarrow> bool" where
  "py_isspace c =
     (let n = (of_char c :: nat)
      in (9 \<le> n \<and> n \<le> 13) \<or> (28 \<le> n \<and> n \<le> 32) \<or> n = 133 \<or> n = 160)"

definition lower_char :: "char \<Rightarrow> char" where
  "lower_char c =
     (let n = (of_char c :: nat)
      in if (65 \<le> n \<and> n \<le> 90) \<or> (192 \<le> n \<and> n \<le> 214) \<or> (216 \<le> n \<and> n \<le> 222)
         then char_of (n + 32) else c)"

definition lower :: "string \<Rightarrow> string" where
  "lower s = map lower_char s"

definition strip :: "string \<Rightarrow> string" where
  "strip s = rev (dropWhile py_isspace (rev (dropWhile py_isspace s)))"

definition endswith :: "string \<Rightarrow> string \<Rightarrow> bool" where
  "endswith s suf = suffix suf s"

definition contains :: "string \<Rightarrow> string \<Rightarrow> bool" where
  "contains sub s = sublist sub s"

type_synonym bytes = "8 word list"

section \<open>The chunker (main.py, lines 73-80)\<close>

text \<open>
  \<^verbatim>\<open>
  def chunks(s: str, size: int, overlap: int):
      out, i = [], 0
      if not s: return out
      step = max(1, size - overlap)
      while i < len(s):
          out.append(s[i:i+size])
          i += step
      return out
  \<close>
  The \<open>while\<close> loop is a partial function: \<open>None\<close> stands for a loop that never
  returns. The loop itself is defined for every \<open>step\<close>, also those that would make
  it run forever; \<open>chunks\<close> calls it with the clamped step.
\<close>

partial_function (option) chunks_while ::
  "string \<Rightarrow> int \<Rightarrow> int \<Rightarrow> string list \<Rightarrow> int \<Rightarrow> string list option" where
  "chunks_while s csize step out i =
     (if i < int (length s)
      then chunks_while s csize step (out @ [py_slice s i (i + csize)]) (i + step)
      else Some out)"

declare chunks_while.simps [code]

definition chunk_step :: "int \<Rightarrow> int \<Rightarrow> int" where
  "chunk_step csize overlap = max 1 (csize - overlap)"

definition chunks :: "string \<Rightarrow> int \<Rightarrow> int \<Rightarrow> string list option" where
  "chunks s csize overlap =
     (if s = [] then Some []
      else chunks_while s csize (chunk_step csize overlap) [] 0)"

text \<open>The number of iterations of the loop from offset \<open>i\<close>, and the chunk list it appends.\<close>

definition n_iter :: "nat \<Rightarrow> int \<Rightarrow> int \<Rightarrow> nat" where
  "n_iter n step i = nat ((int n - i + step - 1) div step)"

definition chunk_at :: "string \<Rightarrow> int \<Rightarrow> int \<Rightarrow> int \<Rightarrow> nat \<Rightarrow> string" where
  "chunk_at s csize step i k = py_slice s (i + int k * step) (i + int k * step + csize)"

section \<open>Runtime configuration (main.py, lines 19-30 and 178-198)\<close>

text \<open>
  \<^verbatim>\<open>
  CHUNK_SIZE = int(os.getenv("CHUNK_SIZE", "800"))
  CHUNK_OVERLAP = int(os.getenv("CHUNK_OVERLAP", "120"))
  EMBED_BATCH = int(os.getenv("EMBED_BATCH", "32"))
  UPSERT_BATCH = int(os.getenv("UPSERT_BATCH", "256"))
  RUNTIME = {"EMBED_BATCH": EMBED_BATCH, "UPSERT_BATCH": UPSERT_BATCH,
             "CHUNK_SIZE": CHUNK_SIZE, "CHUNK_OVERLAP": CHUNK_OVERLAP}
  \<close>
  The dictionary has four fixed keys: a record. The environment is modelled by the
  integers its variables parse to (an unset variable is \<open>None\<close>).
\<close>

record runtime =
  EMBED_BATCH :: int
  UPSERT_BATCH :: int
  CHUNK_SIZE :: int
  CHUNK_OVERLAP :: int

definition getenv_int :: "(string \<rightharpoonup> int) \<Rightarrow> string \<Rightarrow> int \<Rightarrow> int" where
  "getenv_int env k d = (case env k of None \<Rightarrow> d | Some v \<Rightarrow> v)"

definition RUNTIME_init :: "(string \<rightharpoonup> int) \<Rightarrow> runtime" where
  "RUNTIME_init env =
     \<lparr>EMBED_BATCH = getenv_int env ''EMBED_BATCH'' 32,
      UPSERT_BATCH = getenv_int env ''UPSERT_BATCH'' 256,
      CHUNK_SIZE = getenv_int env ''CHUNK_SIZE'' 800,
      CHUNK_OVERLAP = getenv_int env ''CHUNK_OVERLAP'' 120\<rparr>"

definition RUNTIME_default :: runtime where
  "RUNTIME_default = RUNTIME_init Map.empty"

text \<open>
  \<^verbatim>\<open>
  class ConfigPatch(BaseModel):
      EMBED_BATCH: Optional[int] = None
      UPSERT_BATCH: Optional[int] = None
      CHUNK_SIZE: Optional[int] = None
      CHUNK_OVERLAP: Optional[int] = None

  def set_config(p: ConfigPatch):
      if p.EMBED_BATCH is not None and p.EMBED_BATCH > 0:
          RUNTIME["EMBED_BATCH"] = int(p.EMBED_BATCH)
      if p.UPSERT_BATCH is not None and p.UPSERT_BATCH > 0:
          RUNTIME["UPSERT_BATCH"] = int(p.UPSERT_BATCH)
      if p.CHUNK_SIZE is not None and p.CHUNK_SIZE >= 128:
          RUNTIME["CHUNK_SIZE"] = int(p.CHUNK_SIZE)
      if p.CHUNK_OVERLAP is not None and 0 <= p.CHUNK_OVERLAP < RUNTIME["CHUNK_SIZE"]:
          RUNTIME["CHUNK_OVERLAP"] = int(p.CHUNK_OVERLAP)
      return {"ok": True, **RUNTIME}
  \<close>
  The global \<open>RUNTIME\<close> is passed in and returned updated, beside the response.
\<close>

record ConfigPatch =
  patch_EMBED_BATCH :: "int option"
  patch_UPSERT_BATCH :: "int option"
  patch_CHUNK_SIZE :: "int option"
  patch_CHUNK_OVERLAP :: "int option"

record set_config_response =
  cfg_ok :: bool
  cfg_runtime :: runtime

definition set_EMBED_BATCH :: "ConfigPatch \<Rightarrow> runtime \<Rightarrow> runtime" where
  "set_EMBED_BATCH p R =
     (case patch_EMBED_BATCH p of
        Some v \<Rightarrow> if v > 0 then R\<lparr>EMBED_BATCH := v\<rparr> else R
      | None \<Rightarrow> R)"

definition set_UPSERT_BATCH :: "ConfigPatch \<Rightarrow> runtime \<Rightarrow> runtime" where
  "set_UPSERT_BATCH p R =
     (case patch_UPSERT_BATCH p of
        Some v \<Rightarrow> if v > 0 then R\<lparr>UPSERT_BATCH := v\<rparr> else R
      | None \<Rightarrow> R)"

definition set_CHUNK_SIZE :: "ConfigPatch \<Rightarrow> runtime \<Rightarrow> runtime" where
  "set_CHUNK_SIZE p R =
     (case patch_CHUNK_SIZE p of
        Some v \<Rightarrow> if v \<ge> 128 then R\<lparr>CHUNK_SIZE := v\<rparr> else R
      | None \<Rightarrow> R)"

definition set_CHUNK_OVERLAP :: "ConfigPatch \<Rightarrow> runtime \<Rightarrow> runtime" where
  "set_CHUNK_OVERLAP p R =
     (case patch_CHUNK_OVERLAP p of
        Some v \<Rightarrow> if 0 \<le> v \<and> v < CHUNK_SIZE R then R\<lparr>CHUNK_OVERLAP := v\<rparr> else R
      | None \<Rightarrow> R)"

definition set_config :: "ConfigPatch \<Rightarrow> runtime \<Rightarrow> set_config_response \<times> runtime" where
  "set_config p R =
     (let R1 = set_EMBED_BATCH p R;
          R2 = set_UPSERT_BATCH p R1;
          R3 = set_CHUNK_SIZE p R2;
          R4 = set_CHUNK_OVERLAP p R3
      in (\<lparr>cfg_ok = True, cfg_runtime = R4\<rparr>, R4))"

text \<open>
  \<^verbatim>\<open>
  EMBED_MODEL = os.getenv("EMBED_MODEL", "nomic-embed-text:latest")
  GEN_MODEL = os.getenv("GEN_MODEL", "llama3.1:8b")
  COLL = os.getenv("COLLECTION", "docs")

  def get_config():
      return {**RUNTIME, "EMBED_MODEL": EMBED_MODEL, "GEN_MODEL": GEN_MODEL, "COLLECTION": COLL}
  \<close>
\<close>

record settings =
  EMBED_MODEL :: string
  GEN_MODEL :: string
  COLL :: string

definition settings_default :: settings where
  "settings_default =
     \<lparr>EMBED_MODEL = ''nomic-embed-text:latest'', GEN_MODEL = ''llama3.1:8b'', COLL = ''docs''\<rparr>"

record get_config_response =
  cfg_current :: runtime
  cfg_EMBED_MODEL :: string
  cfg_GEN_MODEL :: string
  cfg_COLLECTION :: string

definition get_config :: "settings \<Rightarrow> runtime \<Rightarrow> get_config_response" where
  "get_config E R =
     \<lparr>cfg_current = R, cfg_EMBED_MODEL = EMBED_MODEL E, cfg_GEN_MODEL = GEN_MODEL E,
      cfg_COLLECTION = COLL E\<rparr>"

text \<open>A sequence of patch requests, applied in order.\<close>

fun set_configs :: "ConfigPatch list \<Rightarrow> runtime \<Rightarrow> runtime" where
  "set_configs [] R = R"
| "set_configs (p # ps) R = set_configs ps (snd (set_config p R))"

definition config_valid :: "runtime \<Rightarrow> bool" where
  "config_valid R \<longleftrightarrow>
     CHUNK_SIZE R \<ge> 128 \<and> 0 \<le> CHUNK_OVERLAP R \<and> CHUNK_OVERLAP R < CHUNK_SIZE R
     \<and> EMBED_BATCH R > 0 \<and> UPSERT_BATCH R > 0"

definition no_patch :: ConfigPatch where
  "no_patch = \<lparr>patch_EMBED_BATCH = None, patch_UPSERT_BATCH = None,
               patch_CHUNK_SIZE = None, patch_CHUNK_OVERLAP = None\<rparr>"

section \<open>Text extraction (main.py, lines 83-170)\<close>

text \<open>
  The per-format extractors parse the bytes with third-party libraries (pypdf,
  python-docx, python-pptx, pandas); they are parameters of the model, each from bytes
  to a text or the exception it raises. So is \<open>b.decode("utf-8", errors="ignore")\<close>.
  \<^verbatim>\<open>
  def extract_text_from_txt(b: bytes) -> str:
      return b.decode("utf-8", errors="ignore")
  \<close>
\<close>

record extractors =
  decode_utf8_ignore :: "bytes \<Rightarrow> error + string"
  extract_text_from_pdf :: "bytes \<Rightarrow> error + string"
  extract_text_from_docx :: "bytes \<Rightarrow> error + string"
  extract_text_from_pptx :: "bytes \<Rightarrow> error + string"
  extract_text_from_csv :: "bytes \<Rightarrow> error + string"
  extract_text_from_xlsx :: "bytes \<Rightarrow> error + string"
  extract_text_from_xls :: "bytes \<Rightarrow> error + string"

definition extract_text_from_txt :: "'x extractors_scheme \<Rightarrow> bytes \<Rightarrow> error + string" where
  "extract_text_from_txt X b = decode_utf8_ignore X b"

text \<open>
  \<^verbatim>\<open>
  def extract_text(filename: str, content_type: str, b: bytes) -> str:
      name = (filename or "").lower()
      ct = (content_type or "").lower()
      try:
          if name.endswith(".pdf") or "pdf" in ct:
              return extract_text_from_pdf(b)
          if name.endswith(".docx") or "word" in ct:
              return extract_text_from_docx(b)
          if name.endswith(".pptx") or "powerpoint" in ct:
              return extract_text_from_pptx(b)
          if name.endswith(".csv") or "csv" in ct:
              return extract_text_from_csv(b)
          if name.endswith(".xlsx"):
              return extract_text_from_xlsx(b)
          if name.endswith(".xls"):
              return extract_text_from_xls(b)
          if name.endswith(".md") or name.endswith(".txt") or "text" in ct:
              return extract_text_from_txt(b)
      except Exception:
          try:
              return b.decode("utf-8", errors="ignore")
          except Exception:
              return ""
      return b.decode("utf-8", errors="ignore")
  \<close>
  \<open>extract_try\<close> is the body of the outer \<open>try\<close>: it raises (\<open>Inl\<close>), returns a text
  (\<open>Inr (Some t)\<close>) or falls through (\<open>Inr None\<close>). On a \<open>str\<close>, \<open>filename or ""\<close> is
  \<open>filename\<close>.
\<close>

definition returning :: "error + string \<Rightarrow> error + string option" where
  "returning r = (case r of Inl e \<Rightarrow> Inl e | Inr t \<Rightarrow> Inr (Some t))"

definition extract_try ::
  "'x extractors_scheme \<Rightarrow> string \<Rightarrow> string \<Rightarrow> bytes \<Rightarrow> error + string option" where
  "extract_try X name ct b =
     (if endswith name ''.pdf'' \<or> contains ''pdf'' ct then returning (extract_text_from_pdf X b)
      else if endswith name ''.docx'' \<or> contains ''word'' ct
        then returning (extract_text_from_docx X b)
      else if endswith name ''.pptx'' \<or> contains ''powerpoint'' ct
        then returning (extract_text_from_pptx X b)
      else if endswith name ''.csv'' \<or> contains ''csv'' ct
        then returning (extract_text_from_csv X b)
      else if endswith name ''.xlsx'' then returning (extract_text_from_xlsx X b)
      else if endswith name ''.xls'' then returning (extract_text_from_xls X b)
      else if endswith name ''.md'' \<or> endswith name ''.txt'' \<or> contains ''text'' ct
        then returning (extract_text_from_txt X b)
      else Inr None)"

definition extract_text ::
  "'x extractors_scheme \<Rightarrow> string \<Rightarrow> string \<Rightarrow> bytes \<Rightarrow> error + string" where
  "extract_text X filename content_type b =
     (let name = lower filename; ct = lower content_type
      in case extract_try X name ct b of
           Inr (Some t) \<Rightarrow> Inr t
         | Inl e \<Rightarrow>
             (case decode_utf8_ignore X b of
                Inr t \<Rightarrow> Inr t
              | Inl e' \<Rightarrow> Inr [])
         | Inr None \<Rightarrow> decode_utf8_ignore X b)"

text \<open>The formats the dispatch recognises, by the lowered name and content type.\<close>

definition recognised :: "string \<Rightarrow> string \<Rightarrow> bool" where
  "recognised name ct \<longleftrightarrow>
     endswith name ''.pdf'' \<or> contains ''pdf'' ct \<or> endswith name ''.docx'' \<or> contains ''word'' ct
     \<or> endswith name ''.pptx'' \<or> contains ''powerpoint'' ct \<or> endswith name ''.csv''
     \<or> contains ''csv'' ct \<or> endswith name ''.xlsx'' \<or> endswith name ''.xls''
     \<or> endswith name ''.md'' \<or> endswith name ''.txt'' \<or> contains ''text'' ct"

section \<open>The remote services and the state they keep\<close>

text \<open>
  \<^verbatim>\<open>PointStruct(id=..., vector=v, payload={"text": ch_batch[i], **m})\<close> with
  \<^verbatim>\<open>m = {"project": project, "file": filename}\<close>: the payload has the three keys
  \<open>text\<close>, \<open>project\<close> and \<open>file\<close>. A vector is a list of numbers.
\<close>

type_synonym vector = "real list"

record meta =
  m_project :: string
  m_file :: string

record payload =
  p_text :: string
  p_project :: string
  p_file :: string

record PointStruct =
  pt_id :: string
  pt_vector :: vector
  pt_payload :: payload

text \<open>
  The embedding service, the HTTP servers behind the URLs, the Qdrant server and the
  random source of \<open>uuid.uuid4\<close> are outside main.py. They are parameters:
  \<^item> \<open>embeddings_api prompt\<close>: what the lines
    \<^verbatim>\<open>r = requests.post(f"{OLLAMA}/api/embeddings", json={"model": EMBED_MODEL, "prompt": text}); r.raise_for_status(); data = r.json(); data["embedding"]\<close>
    give: the embedding, or the exception one of them raises;
  \<^item> \<open>http_get_api url authorization\<close>: what \<open>requests.get(url, headers=headers)\<close>
    gives: status code and content, or an exception;
  \<^item> \<open>qdrant_fails request\<close>: the exception the Qdrant client raises for a request, if
    any;
  \<^item> \<open>uuid4 n\<close>: the \<open>n\<close>-th identifier drawn.
  The state is the collections of the Qdrant server (name and vector size), the points
  it accepted through \<open>upsert\<close> into the collection \<open>COLL\<close>, oldest first, and the
  number of identifiers drawn.
\<close>

datatype qdrant_request =
    GetCollections
  | RecreateCollection string nat
  | Upsert string "PointStruct list"

record services = extractors +
  embeddings_api :: "string \<Rightarrow> error + vector"
  http_get_api :: "string \<Rightarrow> string option \<Rightarrow> error + (nat \<times> bytes)"
  qdrant_fails :: "qdrant_request \<Rightarrow> error option"
  uuid4 :: "nat \<Rightarrow> string"

record world =
  collections :: "(string \<times> nat) list"
  upserted :: "PointStruct list"
  uuid_count :: nat

text \<open>
  \<^verbatim>\<open>
  def ensure_collection(dim=768):
      names = [c.name for c in qdrant.get_collections().collections]
      if COLL not in names:
          qdrant.recreate_collection(
              collection_name=COLL,
              vectors_config=VectorParams(size=dim, distance=Distance.COSINE),
          )
  \<close>
  \<open>recreate_collection\<close> deletes a collection of that name and creates it anew.
\<close>

definition ensure_collection ::
  "services \<Rightarrow> settings \<Rightarrow> nat \<Rightarrow> world \<Rightarrow> (error + unit) \<times> world" where
  "ensure_collection S E vsize W =
     (case qdrant_fails S GetCollections of
        Some e \<Rightarrow> (Inl e, W)
      | None \<Rightarrow>
          let names = map fst (collections W)
          in if COLL E \<notin> set names
             then (case qdrant_fails S (RecreateCollection (COLL E) vsize) of
                     Some e \<Rightarrow> (Inl e, W)
                   | None \<Rightarrow>
                       (Inr (), W\<lparr>collections :=
                          filter (\<lambda>c. fst c \<noteq> COLL E) (collections W) @ [(COLL E, vsize)]\<rparr>))
             else (Inr (), W))"

section \<open>The embedding client (main.py, lines 43-67)\<close>

text \<open>
  \<^verbatim>\<open>
  def embed_batch(text_list):
      if not text_list:
          return []
      embeddings = []
      for text in text_list:
          if text and text.strip():  # Skip empty strings
              r = requests.post(f"{OLLAMA}/api/embeddings", json={
                  "model": EMBED_MODEL,
                  "prompt": text
              }, timeout=300)
              r.raise_for_status()
              data = r.json()
              embeddings.append(data["embedding"])
          else:
              # For empty strings, create a zero vector (768 dimensions for nomic-embed-text)
              embeddings.append([0.0] * 768)
      return embeddings

  def embed(text):
      r = requests.post(f"{OLLAMA}/api/embeddings", json={
          "model": EMBED_MODEL, "prompt": text
      }, timeout=120)
      r.raise_for_status()
      data = r.json()
      return data["embedding"]
  \<close>
\<close>

fun embed_batch_loop ::
  "'x services_scheme \<Rightarrow> string list \<Rightarrow> vector list \<Rightarrow> error + vector list" where
  "embed_batch_loop S [] embeddings = Inr embeddings"
| "embed_batch_loop S (text # rest) embeddings =
     (if text \<noteq> [] \<and> strip text \<noteq> []
      then (case embeddings_api S text of
              Inl e \<Rightarrow> Inl e
            | Inr v \<Rightarrow> embed_batch_loop S rest (embeddings @ [v]))
      else embed_batch_loop S rest (embeddings @ [replicate 768 0]))"

definition embed_batch :: "'x services_scheme \<Rightarrow> string list \<Rightarrow> error + vector list" where
  "embed_batch S text_list = (if text_list = [] then Inr [] else embed_batch_loop S text_list [])"

definition embed :: "'x services_scheme \<Rightarrow> string \<Rightarrow> error + vector" where
  "embed S text = embeddings_api S text"

text \<open>
  \<^verbatim>\<open>
  @app.on_event("startup")
  def _start():
      v = embed("dimension probe")
      ensure_collection(len(v))
  \<close>
\<close>

definition start :: "services \<Rightarrow> settings \<Rightarrow> world \<Rightarrow> (error + unit) \<times> world" where
  "start S E W =
     (case embed S ''dimension probe'' of
        Inl e \<Rightarrow> (Inl e, W)
      | Inr v \<Rightarrow> ensure_collection S E (length v) W)"

text \<open>A blank element, and what \<open>embed_batch\<close> appends for one element.\<close>

definition is_blank :: "string \<Rightarrow> bool" where
  "is_blank text \<longleftrightarrow> text = [] \<or> strip text = []"

definition embedding_for :: "'x services_scheme \<Rightarrow> string \<Rightarrow> error + vector" where
  "embedding_for S text = (if is_blank text then Inr (replicate 768 0) else embeddings_api S text)"

section \<open>Ingestion (main.py, lines 69-71 and 200-273)\<close>

text \<open>
  \<^verbatim>\<open>
  def chunk_list(items, n):
      for i in range(0, len(items), n):
          yield items[i:i+n]
  \<close>
  The callers iterate the generator to its end over a list they do not change
  meanwhile, so it is modelled by the list of what it yields, or the exception of
  \<open>range\<close>.
\<close>

definition chunk_list :: "'a list \<Rightarrow> int \<Rightarrow> error + 'a list list" where
  "chunk_list items n =
     (case py_range0 (length items) n of
        Inl e \<Rightarrow> Inl e
      | Inr offsets \<Rightarrow> Inr (map (\<lambda>i. py_slice items i (i + n)) offsets))"

text \<open>
  \<^verbatim>\<open>
  def http_get(url: str, bearer: Optional[str] = None) -> bytes:
      headers = {}
      if bearer:
          headers["Authorization"] = f"Bearer {bearer}"
      r = requests.get(url, headers=headers, timeout=300)
      if r.status_code != 200:
          raise HTTPException(status_code=502, detail=f"Fetch failed {r.status_code} for {url}")
      return r.content
  \<close>
  \<open>authorization bearer\<close> is the \<open>Authorization\<close> header, if the request has one.
\<close>

fun str_nat :: "nat \<Rightarrow> string" where
  "str_nat n = (if n < 10 then [char_of (48 + n)] else str_nat (n div 10) @ [char_of (48 + n mod 10)])"

definition authorization :: "string option \<Rightarrow> string option" where
  "authorization bearer =
     (case bearer of
        None \<Rightarrow> None
      | Some b \<Rightarrow> if b = [] then None else Some (''Bearer '' @ b))"

definition http_get :: "'x services_scheme \<Rightarrow> string \<Rightarrow> string option \<Rightarrow> error + bytes" where
  "http_get S url bearer =
     (case http_get_api S url (authorization bearer) of
        Inl e \<Rightarrow> Inl e
      | Inr (status_code, content) \<Rightarrow>
          if status_code \<noteq> 200
          then Inl (HTTPException 502 (''Fetch failed '' @ str_nat status_code @ '' for '' @ url))
          else Inr content)"

text \<open>
  \<^verbatim>\<open>
  def ingest_bytes(filename: str, content_type: str, raw: bytes, project: str, chunks_out: list, meta_out: list):
      text = extract_text(filename, content_type, raw)
      for ch in chunks(text, RUNTIME["CHUNK_SIZE"], RUNTIME["CHUNK_OVERLAP"]):
          chunks_out.append(ch)
          meta_out.append({"project": project, "file": filename})
  \<close>
  The two output lists are passed in and returned extended. An exception leaves them as
  they were (it can only come from \<open>extract_text\<close>, before the first \<open>append\<close>);
  \<open>None\<close> is a chunker that does not return.
\<close>

fun append_chunks ::
  "string \<Rightarrow> string \<Rightarrow> string list \<Rightarrow> string list \<times> meta list \<Rightarrow> string list \<times> meta list" where
  "append_chunks project filename [] (chunks_out, meta_out) = (chunks_out, meta_out)"
| "append_chunks project filename (ch # rest) (chunks_out, meta_out) =
     append_chunks project filename rest
       (chunks_out @ [ch], meta_out @ [\<lparr>m_project = project, m_file = filename\<rparr>])"

definition ingest_bytes ::
  "'x extractors_scheme \<Rightarrow> runtime \<Rightarrow> string \<Rightarrow> string \<Rightarrow> bytes \<Rightarrow> string \<Rightarrow>
     string list \<times> meta list \<Rightarrow> (error + string list \<times> meta list) option" where
  "ingest_bytes X R filename content_type raw project outs =
     (case extract_text X filename content_type raw of
        Inl e \<Rightarrow> Some (Inl e)
      | Inr text \<Rightarrow>
          (case chunks text (CHUNK_SIZE R) (CHUNK_OVERLAP R) of
             None \<Rightarrow> None
           | Some chs \<Rightarrow> Some (Inr (append_chunks project filename chs outs))))"

text \<open>
  The batching loops. In \<open>ingest\<close>:
  \<^verbatim>\<open>
      total_points = 0
      for ch_batch in chunk_list(all_chunks, RUNTIME["EMBED_BATCH"]):
          vecs = embed_batch(ch_batch)
          pts = []
          base_idx = total_points  # not used for mapping, but okay
          for i, v in enumerate(vecs):
              m = meta[(total_points + i) if (total_points + i) < len(meta) else -1]
              pts.append(PointStruct(id=str(uuid.uuid4()), vector=v, payload={"text": ch_batch[i], **m}))
          for up in chunk_list(pts, RUNTIME["UPSERT_BATCH"]):
              qdrant.upsert(collection_name=COLL, points=up)
              total_points += len(up)
  \<close>
  In \<open>ingest_urls\<close> (and, with the same text, in \<open>ingest_sharepoint\<close>):
  \<^verbatim>\<open>
      total_points = 0
      for ch_batch in chunk_list(all_chunks, RUNTIME["EMBED_BATCH"]):
          vecs = embed_batch(ch_batch)
          pts = [PointStruct(id=str(uuid.uuid4()), vector=v,
                             payload={"text": ch_batch[i], **meta[total_points + i]}) for i, v in enumerate(vecs)]
          for up in chunk_list(pts, RUNTIME["UPSERT_BATCH"]):
              qdrant.upsert(collection_name=COLL, points=up)
              total_points += len(up)
  \<close>
  The two differ in how \<open>pts\<close> is built only, so the loop is defined once, over the
  function that builds \<open>pts\<close>. The arguments of \<open>PointStruct\<close> are evaluated left to right:
  the identifier is drawn before the indexing that may raise.
\<close>

definition draw_uuid :: "'x services_scheme \<Rightarrow> world \<Rightarrow> string \<times> world" where
  "draw_uuid S W = (uuid4 S (uuid_count W), W\<lparr>uuid_count := uuid_count W + 1\<rparr>)"

fun ingest_pts_loop ::
  "'x services_scheme \<Rightarrow> meta list \<Rightarrow> string list \<Rightarrow> int \<Rightarrow> (nat \<times> vector) list \<Rightarrow>
     PointStruct list \<Rightarrow> world \<Rightarrow> (error + PointStruct list) \<times> world" where
  "ingest_pts_loop S meta ch_batch total_points [] pts W = (Inr pts, W)"
| "ingest_pts_loop S meta ch_batch total_points ((i, v) # rest) pts W =
     (case py_index meta
             (if total_points + int i < int (length meta) then total_points + int i else - 1) of
        Inl e \<Rightarrow> (Inl e, W)
      | Inr m \<Rightarrow>
          (case draw_uuid S W of
             (ident, W') \<Rightarrow>
               (case py_index ch_batch (int i) of
                  Inl e \<Rightarrow> (Inl e, W')
                | Inr t \<Rightarrow>
                    ingest_pts_loop S meta ch_batch total_points rest
                      (pts @ [\<lparr>pt_id = ident, pt_vector = v,
                               pt_payload = \<lparr>p_text = t, p_project = m_project m,
                                              p_file = m_file m\<rparr>\<rparr>]) W')))"

definition ingest_pts ::
  "'x services_scheme \<Rightarrow> meta list \<Rightarrow> string list \<Rightarrow> int \<Rightarrow> vector list \<Rightarrow> world \<Rightarrow>
     (error + PointStruct list) \<times> world" where
  "ingest_pts S meta ch_batch total_points vecs W =
     ingest_pts_loop S meta ch_batch total_points (enumerate 0 vecs) [] W"

fun ingest_urls_pts_loop ::
  "'x services_scheme \<Rightarrow> meta list \<Rightarrow> string list \<Rightarrow> int \<Rightarrow> (nat \<times> vector) list \<Rightarrow>
     PointStruct list \<Rightarrow> world \<Rightarrow> (error + PointStruct list) \<times> world" where
  "ingest_urls_pts_loop S meta ch_batch total_points [] pts W = (Inr pts, W)"
| "ingest_urls_pts_loop S meta ch_batch total_points ((i, v) # rest) pts W =
     (case draw_uuid S W of
        (ident, W') \<Rightarrow>
          (case py_index ch_batch (int i) of
             Inl e \<Rightarrow> (Inl e, W')
           | Inr t \<Rightarrow>
               (case py_index meta (total_points + int i) of
                  Inl e \<Rightarrow> (Inl e, W')
                | Inr m \<Rightarrow>
                    ingest_urls_pts_loop S meta ch_batch total_points rest
                      (pts @ [\<lparr>pt_id = ident, pt_vector = v,
                               pt_payload = \<lparr>p_text = t, p_project = m_project m,
                                              p_file = m_file m\<rparr>\<rparr>]) W')))"

definition ingest_urls_pts ::
  "'x services_scheme \<Rightarrow> meta list \<Rightarrow> string list \<Rightarrow> int \<Rightarrow> vector list \<Rightarrow> world \<Rightarrow>
     (error + PointStruct list) \<times> world" where
  "ingest_urls_pts S meta ch_batch total_points vecs W =
     ingest_urls_pts_loop S meta ch_batch total_points (enumerate 0 vecs) [] W"

definition qdrant_upsert ::
  "'x services_scheme \<Rightarrow> settings \<Rightarrow> PointStruct list \<Rightarrow> world \<Rightarrow> (error + unit) \<times> world" where
  "qdrant_upsert S E up W =
     (case qdrant_fails S (Upsert (COLL E) up) of
        Some e \<Rightarrow> (Inl e, W)
      | None \<Rightarrow> (Inr (), W\<lparr>upserted := upserted W @ up\<rparr>))"

fun upsert_loop ::
  "'x services_scheme \<Rightarrow> settings \<Rightarrow> PointStruct list list \<Rightarrow> int \<Rightarrow> world \<Rightarrow>
     (error + int) \<times> world" where
  "upsert_loop S E [] total_points W = (Inr total_points, W)"
| "upsert_loop S E (up # rest) total_points W =
     (case qdrant_upsert S E up W of
        (Inl e, W') \<Rightarrow> (Inl e, W')
      | (Inr u, W') \<Rightarrow> upsert_loop S E rest (total_points + int (length up)) W')"

type_synonym 'x pts_builder =
  "'x services_scheme \<Rightarrow> meta list \<Rightarrow> string list \<Rightarrow> int \<Rightarrow> vector list \<Rightarrow> world \<Rightarrow>
     (error + PointStruct list) \<times> world"

definition embed_upsert_batch ::
  "'x pts_builder \<Rightarrow> 'x services_scheme \<Rightarrow> settings \<Rightarrow> runtime \<Rightarrow> meta list \<Rightarrow> string list \<Rightarrow>
     int \<Rightarrow> world \<Rightarrow> (error + int) \<times> world" where
  "embed_upsert_batch build S E R meta ch_batch total_points W =
     (case embed_batch S ch_batch of
        Inl e \<Rightarrow> (Inl e, W)
      | Inr vecs \<Rightarrow>
          (case build S meta ch_batch total_points vecs W of
             (Inl e, W1) \<Rightarrow> (Inl e, W1)
           | (Inr pts, W1) \<Rightarrow>
               (case chunk_list pts (UPSERT_BATCH R) of
                  Inl e \<Rightarrow> (Inl e, W1)
                | Inr ups \<Rightarrow> upsert_loop S E ups total_points W1)))"

fun embed_upsert_loop ::
  "'x pts_builder \<Rightarrow> 'x services_scheme \<Rightarrow> settings \<Rightarrow> runtime \<Rightarrow> meta list \<Rightarrow>
     string list list \<Rightarrow> int \<Rightarrow> world \<Rightarrow> (error + int) \<times> world" where
  "embed_upsert_loop build S E R meta [] total_points W = (Inr total_points, W)"
| "embed_upsert_loop build S E R meta (ch_batch # rest) total_points W =
     (case embed_upsert_batch build S E R meta ch_batch total_points W of
        (Inl e, W') \<Rightarrow> (Inl e, W')
      | (Inr total_points', W') \<Rightarrow> embed_upsert_loop build S E R meta rest total_points' W')"

definition embed_upsert_all ::
  "'x pts_builder \<Rightarrow> 'x services_scheme \<Rightarrow> settings \<Rightarrow> runtime \<Rightarrow> string list \<Rightarrow> meta list \<Rightarrow>
     world \<Rightarrow> (error + int) \<times> world" where
  "embed_upsert_all build S E R all_chunks meta W =
     (case chunk_list all_chunks (EMBED_BATCH R) of
        Inl e \<Rightarrow> (Inl e, W)
      | Inr batches \<Rightarrow> embed_upsert_loop build S E R meta batches 0 W)"

text \<open>
  \<^verbatim>\<open>
  @app.post("/ingest")
  async def ingest(files: List[UploadFile] = File(...), project: str = Form("default")):
      all_chunks, meta = [], []
      for f in files:
          b = await f.read()
          ingest_bytes(f.filename, f.content_type or "", b, project, all_chunks, meta)
      (the batching loops)
      return {"ok": True, "project": project, "chunks": total_points, "files": [f.filename for f in files]}
  \<close>
\<close>

record UploadFile =
  uf_filename :: string
  uf_content_type :: "string option"
  uf_read :: bytes

record ingest_response =
  ir_ok :: bool
  ir_project :: string
  ir_chunks :: int
  ir_files :: "string list"

fun ingest_files ::
  "'x extractors_scheme \<Rightarrow> runtime \<Rightarrow> string \<Rightarrow> UploadFile list \<Rightarrow> string list \<times> meta list \<Rightarrow>
     (error + string list \<times> meta list) option" where
  "ingest_files X R project [] outs = Some (Inr outs)"
| "ingest_files X R project (f # fs) outs =
     (case ingest_bytes X R (uf_filename f)
             (case uf_content_type f of None \<Rightarrow> [] | Some c \<Rightarrow> c) (uf_read f) project outs of
        None \<Rightarrow> None
      | Some (Inl e) \<Rightarrow> Some (Inl e)
      | Some (Inr outs') \<Rightarrow> ingest_files X R project fs outs')"

definition ingest ::
  "services \<Rightarrow> settings \<Rightarrow> runtime \<Rightarrow> UploadFile list \<Rightarrow> string \<Rightarrow> world \<Rightarrow>
     ((error + ingest_response) \<times> world) option" where
  "ingest S E R files project W =
     (case ingest_files S R project files ([], []) of
        None \<Rightarrow> None
      | Some (Inl e) \<Rightarrow> Some (Inl e, W)
      | Some (Inr (all_chunks, meta)) \<Rightarrow>
          (case embed_upsert_all ingest_pts S E R all_chunks meta W of
             (Inl e, W') \<Rightarrow> Some (Inl e, W')
           | (Inr total_points, W') \<Rightarrow>
               Some (Inr \<lparr>ir_ok = True, ir_project = project, ir_chunks = total_points,
                          ir_files = map uf_filename files\<rparr>, W')))"

text \<open>
  \<^verbatim>\<open>
  @app.post("/ingest_urls")
  def ingest_urls(body: UrlIngest):
      all_chunks, meta = [], []
      fetched = 0
      for u in body.urls:
          try:
              data = http_get(u, body.bearer)
              lower = u.lower()
              ctype = "application/octet-stream"
              if lower.endswith(".pdf"): ctype = "application/pdf"
              elif lower.endswith(".docx"): ctype = "application/vnd.openxmlformats-officedocument.wordprocessingml.document"
              elif lower.endswith(".pptx"): ctype = "application/vnd.openxmlformats-officedocument.presentationml.presentation"
              elif lower.endswith(".xlsx"): ctype = "application/vnd.openxmlformats-officedocument.spreadsheetml.sheet"
              elif lower.endswith(".xls"): ctype = "application/vnd.ms-excel"
              elif lower.endswith(".csv"): ctype = "text/csv"
              elif lower.endswith(".md") or lower.endswith(".txt"): ctype = "text/plain"
              fname = u.split("?")[0].rstrip("/").split("/")[-1] or "downloaded"
              ingest_bytes(fname, ctype, data, body.project, all_chunks, meta)
              fetched += 1
          except Exception as e:
              print("URL ingest error:", u, e)
              continue
      (the batching loops)
      return {"ok": True, "project": body.project, "fetched": fetched, "chunks": total_points}
  \<close>
  The \<open>print\<close> is not modelled.
\<close>

record UrlIngest =
  ui_project :: string
  ui_urls :: "string list"
  ui_bearer :: "string option"

record ingest_urls_response =
  ur_ok :: bool
  ur_project :: string
  ur_fetched :: int
  ur_chunks :: int

definition url_ctype :: "string \<Rightarrow> string" where
  "url_ctype lower_u =
     (if endswith lower_u ''.pdf'' then ''application/pdf''
      else if endswith lower_u ''.docx''
        then ''application/vnd.openxmlformats-officedocument.wordprocessingml.document''
      else if endswith lower_u ''.pptx''
        then ''application/vnd.openxmlformats-officedocument.presentationml.presentation''
      else if endswith lower_u ''.xlsx''
        then ''application/vnd.openxmlformats-officedocument.spreadsheetml.sheet''
      else if endswith lower_u ''.xls'' then ''application/vnd.ms-excel''
      else if endswith lower_u ''.csv'' then ''text/csv''
      else if endswith lower_u ''.md'' \<or> endswith lower_u ''.txt'' then ''text/plain''
      else ''application/octet-stream'')"

definition url_fname :: "string \<Rightarrow> string" where
  "url_fname u =
     (let before_query = takeWhile (\<lambda>c. c \<noteq> CHR ''?'') u;
          stripped = rev (dropWhile (\<lambda>c. c = CHR ''/'') (rev before_query));
          last_part = rev (takeWhile (\<lambda>c. c \<noteq> CHR ''/'') (rev stripped))
      in if last_part = [] then ''downloaded'' else last_part)"

definition ingest_url ::
  "'x services_scheme \<Rightarrow> runtime \<Rightarrow> UrlIngest \<Rightarrow> string \<Rightarrow> string list \<times> meta list \<Rightarrow>
     (error + string list \<times> meta list) option" where
  "ingest_url S R body u outs =
     (case http_get S u (ui_bearer body) of
        Inl e \<Rightarrow> Some (Inl e)
      | Inr data \<Rightarrow>
          ingest_bytes S R (url_fname u) (url_ctype (lower u)) data (ui_project body) outs)"

fun ingest_urls_fetch ::
  "'x services_scheme \<Rightarrow> runtime \<Rightarrow> UrlIngest \<Rightarrow> string list \<Rightarrow> string list \<times> meta list \<Rightarrow> int \<Rightarrow>
     ((string list \<times> meta list) \<times> int) option" where
  "ingest_urls_fetch S R body [] outs fetched = Some (outs, fetched)"
| "ingest_urls_fetch S R body (u # us) outs fetched =
     (case ingest_url S R body u outs of
        None \<Rightarrow> None
      | Some (Inl e) \<Rightarrow> ingest_urls_fetch S R body us outs fetched
      | Some (Inr outs') \<Rightarrow> ingest_urls_fetch S R body us outs' (fetched + 1))"

definition ingest_urls ::
  "services \<Rightarrow> settings \<Rightarrow> runtime \<Rightarrow> UrlIngest \<Rightarrow> world \<Rightarrow>
     ((error + ingest_urls_response) \<times> world) option" where
  "ingest_urls S E R body W =
     (case ingest_urls_fetch S R body (ui_urls body) ([], []) 0 of
        None \<Rightarrow> None
      | Some ((all_chunks, meta), fetched) \<Rightarrow>
          (case embed_upsert_all ingest_urls_pts S E R all_chunks meta W of
             (Inl e, W') \<Rightarrow> Some (Inl e, W')
           | (Inr total_points, W') \<Rightarrow>
               Some (Inr \<lparr>ur_ok = True, ur_project = ui_project body, ur_fetched = fetched,
                          ur_chunks = total_points\<rparr>, W')))"

section \<open>Vocabulary of the ingestion properties\<close>

text \<open>
  The point built for position \<open>i\<close> of a batch that starts at the absolute index \<open>n0\<close> of
  the accumulated lists, with the identifier \<open>ident\<close> and the vector \<open>v\<close>.
\<close>

definition new_point :: "meta list \<Rightarrow> string list \<Rightarrow> nat \<Rightarrow> string \<Rightarrow> vector \<Rightarrow> nat \<Rightarrow> PointStruct" where
  "new_point meta ch_batch n0 ident v i =
     \<lparr>pt_id = ident, pt_vector = v,
      pt_payload = \<lparr>p_text = ch_batch ! i, p_project = m_project (meta ! (n0 + i)),
                     p_file = m_file (meta ! (n0 + i))\<rparr>\<rparr>"

text \<open>
  \<open>aligned S meta u0 n0 cs new\<close>: the points \<open>new\<close> belong, in order, to the first chunks
  of \<open>cs\<close>, where \<open>cs\<close> starts at the absolute index \<open>n0\<close> of the metadata list and \<open>u0\<close>
  identifiers were drawn before: point \<open>i\<close> carries the \<open>i\<close>-th identifier, the vector
  \<open>embed_batch\<close> gives for chunk \<open>i\<close>, the text of chunk \<open>i\<close> and the project and file of
  the metadata record at \<open>n0 + i\<close>.
\<close>

definition aligned ::
  "'x services_scheme \<Rightarrow> meta list \<Rightarrow> nat \<Rightarrow> nat \<Rightarrow> string list \<Rightarrow> PointStruct list \<Rightarrow> bool" where
  "aligned S meta u0 n0 cs new \<longleftrightarrow>
     length new \<le> length cs
     \<and> (\<forall>i<length new.
           pt_id (new ! i) = uuid4 S (u0 + i)
         \<and> embedding_for S (cs ! i) = Inr (pt_vector (new ! i))
         \<and> p_text (pt_payload (new ! i)) = cs ! i
         \<and> p_project (pt_payload (new ! i)) = m_project (meta ! (n0 + i))
         \<and> p_file (pt_payload (new ! i)) = m_file (meta ! (n0 + i)))"

text \<open>The remote services answer: every embedding request, every upsert.\<close>

definition embeddings_answer :: "'x services_scheme \<Rightarrow> string list \<Rightarrow> bool" where
  "embeddings_answer S cs \<longleftrightarrow> (\<forall>t\<in>set cs. \<exists>v. embedding_for S t = Inr v)"

definition upserts_accepted :: "'x services_scheme \<Rightarrow> settings \<Rightarrow> bool" where
  "upserts_accepted S E \<longleftrightarrow> (\<forall>up. qdrant_fails S (Upsert (COLL E) up) = None)"

text \<open>What both ways of building \<open>pts\<close> do on lists that are long enough.\<close>

definition builds_points :: "'x pts_builder \<Rightarrow> bool" where
  "builds_points build \<longleftrightarrow>
     (\<forall>S meta ch_batch n0 vecs W.
        length vecs \<le> length ch_batch \<and> n0 + length vecs \<le> length meta \<longrightarrow>
        build S meta ch_batch (int n0) vecs W =
          (Inr (map (\<lambda>j. new_point meta ch_batch n0 (uuid4 S (uuid_count W + j)) (vecs ! j) j)
                  [0..<length vecs]),
           W\<lparr>uuid_count := uuid_count W + length vecs\<rparr>))"

text \<open>
  One URL of an \<open>ingest_urls\<close> request on its own: whether the body of the \<open>try\<close> ends
  without an exception (the document is fetched and processed), and the chunks it then
  contributes.
\<close>

definition url_ok :: "'x services_scheme \<Rightarrow> runtime \<Rightarrow> UrlIngest \<Rightarrow> string \<Rightarrow> bool" where
  "url_ok S R body u =
     (case ingest_url S R body u ([], []) of Some (Inr outs) \<Rightarrow> True | _ \<Rightarrow> False)"

definition url_chunks :: "'x services_scheme \<Rightarrow> runtime \<Rightarrow> UrlIngest \<Rightarrow> string \<Rightarrow> string list" where
  "url_chunks S R body u =
     (case ingest_url S R body u ([], []) of Some (Inr (cs, ms)) \<Rightarrow> cs | _ \<Rightarrow> [])"

section \<open>Stand-ins for the external parts, for running the model\<close>

text \<open>
  A decoder that agrees with \<open>b.decode("utf-8", errors="ignore")\<close> on ASCII bytes (it drops
  the others), and document parsers that reject their input.
\<close>

definition ascii_decode :: "bytes \<Rightarrow> error + string" where
  "ascii_decode b = Inr (map (\<lambda>w. char_of (unat w)) (filter (\<lambda>w. w < 128) b))"

definition ascii_encode :: "string \<Rightarrow> bytes" where
  "ascii_encode s = map (\<lambda>c. of_nat (of_char c)) s"

definition rejecting_extractors :: extractors where
  "rejecting_extractors =
     \<lparr>decode_utf8_ignore = ascii_decode,
      extract_text_from_pdf = (\<lambda>b. Inl (LibraryError ''not a PDF'')),
      extract_text_from_docx = (\<lambda>b. Inl (LibraryError ''not a DOCX'')),
      extract_text_from_pptx = (\<lambda>b. Inl (LibraryError ''not a PPTX'')),
      extract_text_from_csv = (\<lambda>b. Inl (LibraryError ''not a CSV'')),
      extract_text_from_xlsx = (\<lambda>b. Inl (LibraryError ''not an XLSX'')),
      extract_text_from_xls = (\<lambda>b. Inl (LibraryError ''not an XLS''))\<rparr>"

text \<open>The same with a decoder that raises, to run the innermost handler of \<open>extract_text\<close>.\<close>

definition raising_extractors :: extractors where
  "raising_extractors =
     rejecting_extractors\<lparr>decode_utf8_ignore := (\<lambda>b. Inl (LibraryError ''decode''))\<rparr>"

text \<open>
  Services for running the model: an embedding service with vectors of 4 components
  that fails on the prompt \<open>fail\<close>, two documents behind URLs (one other URL cannot be
  reached, the rest answer 404), a Qdrant server that accepts every request, and numbered identifiers.
\<close>

definition demo_services :: services where
  "demo_services =
     \<lparr>decode_utf8_ignore = ascii_decode,
      extract_text_from_pdf = (\<lambda>b. Inl (LibraryError ''not a PDF'')),
      extract_text_from_docx = (\<lambda>b. Inl (LibraryError ''not a DOCX'')),
      extract_text_from_pptx = (\<lambda>b. Inl (LibraryError ''not a PPTX'')),
      extract_text_from_csv = (\<lambda>b. Inl (LibraryError ''not a CSV'')),
      extract_text_from_xlsx = (\<lambda>b. Inl (LibraryError ''not an XLSX'')),
      extract_text_from_xls = (\<lambda>b. Inl (LibraryError ''not an XLS'')),
      embeddings_api =
        (\<lambda>prompt. if prompt = ''fail'' then Inl (LibraryError ''503 Server Error'')
                  else Inr [of_nat (length prompt), 1, 2, 3]),
      http_get_api =
        (\<lambda>url authorization.
           if url = ''http://host/a.txt'' then Inr (200, ascii_encode ''alpha'')
           else if url = ''http://host/dir/b.md?x=1'' then Inr (200, ascii_encode ''beta beta'')
           else if url = ''http://down/c.txt'' then Inl (LibraryError ''ConnectionError'')
           else Inr (404, [])),
      qdrant_fails = (\<lambda>request. None),
      uuid4 = (\<lambda>n. ''id-'' @ str_nat n)\<rparr>"

definition empty_world :: world where
  "empty_world = \<lparr>collections = [], upserted = [], uuid_count = 0\<rparr>"

text \<open>
  A small run: three chunks of two documents, embedded in batches of 2 and upserted in
  batches of 1, so that the batches of the two loops do not coincide.
\<close>

definition demo_runtime :: runtime where
  "demo_runtime = RUNTIME_default\<lparr>EMBED_BATCH := 2, UPSERT_BATCH := 1\<rparr>"

definition demo_chunks :: "string list" where
  "demo_chunks = [''aa'', ''b'', ''ccc'']"

definition demo_meta :: "meta list" where
  "demo_meta =
     [\<lparr>m_project = ''p'', m_file = ''one.txt''\<rparr>, \<lparr>m_project = ''p'', m_file = ''one.txt''\<rparr>,
      \<lparr>m_project = ''p'', m_file = ''two.txt''\<rparr>]"

definition demo_points :: "PointStruct list" where
  "demo_points =
     [\<lparr>pt_id = ''id-0'', pt_vector = [2, 1, 2, 3],
       pt_payload = \<lparr>p_text = ''aa'', p_project = ''p'', p_file = ''one.txt''\<rparr>\<rparr>,
      \<lparr>pt_id = ''id-1'', pt_vector = [1, 1, 2, 3],
       pt_payload = \<lparr>p_text = ''b'', p_project = ''p'', p_file = ''one.txt''\<rparr>\<rparr>,
      \<lparr>pt_id = ''id-2'', pt_vector = [3, 1, 2, 3],
       pt_payload = \<lparr>p_text = ''ccc'', p_project = ''p'', p_file = ''two.txt''\<rparr>\<rparr>]"


text \<open>
  A plain-text upload of \<open>2 * 800 - 120 = 1480\<close> characters, and a plain-text upload that
  holds one space.
\<close>

definition demo_upload :: UploadFile where
  "demo_upload =
     \<lparr>uf_filename = ''doc.txt'', uf_content_type = Some ''text/plain'',
      uf_read = ascii_encode (replicate 1480 CHR ''a'')\<rparr>"

definition blank_upload :: UploadFile where
  "blank_upload =
     \<lparr>uf_filename = ''blank.txt'', uf_content_type = Some ''text/plain'',
      uf_read = ascii_encode '' ''\<rparr>"

definition hello_upload :: UploadFile where
  "hello_upload =
     \<lparr>uf_filename = ''a.txt'', uf_content_type = None, uf_read = ascii_encode ''hello''\<rparr>"

text \<open>A request for three URLs, the second of which answers 404.\<close>

definition demo_urls :: UrlIngest where
  "demo_urls =
     \<lparr>ui_project = ''p'',
      ui_urls = [''http://host/a.txt'', ''http://host/missing.txt'', ''http://host/dir/b.md?x=1''],
      ui_bearer = None\<rparr>"

section \<open>Properties of the chunker\<close>

lemma ceil_div_int:
  assumes "1 \<le> (b::int)"
  shows "- ((- a) div b) = (a + b - 1) div b"
proof -
  define q where "q = (a + b - 1) div b"
  define r where "r = (a + b - 1) mod b"
  have decomp: "a + b - 1 = b * q + r"
    by (simp add: q_def r_def)
  have r: "0 \<le> r" "r < b"
    using assms by (simp_all add: r_def)
  have "- a = b * (- q) + (b - 1 - r)"
    using decomp by (simp add: algebra_simps)
  then have "(- a) div b = - q"
    using r by (intro int_div_pos_eq [where r = "b - 1 - r"]) auto
  then show ?thesis by (simp add: q_def)
qed

lemma n_iter_ceiling:
  assumes "1 \<le> step"
  shows "n_iter n step 0 = nat \<lceil>real n / real_of_int step\<rceil>"
proof -
  have "\<lceil>real n / real_of_int step\<rceil> = \<lceil>real_of_int (int n) / real_of_int step\<rceil>"
    by simp
  also have "\<dots> = - ((- int n) div step)"
    by (simp only: ceiling_divide_eq_div)
  also have "\<dots> = (int n + step - 1) div step"
    using assms by (rule ceil_div_int)
  finally show ?thesis by (simp add: n_iter_def)
qed

lemma n_iter_step:
  assumes "1 \<le> step" "i < int n"
  shows "n_iter n step i = Suc (n_iter n step (i + step))"
proof -
  have "(int n - i + step - 1) div step = (int n - (i + step) + step - 1) div step + 1"
    using assms by (smt (verit) div_add_self2)
  moreover have "0 \<le> (int n - (i + step) + step - 1) div step"
    using assms by (simp add: pos_imp_zdiv_nonneg_iff)
  ultimately show ?thesis unfolding n_iter_def by linarith
qed

lemma n_iter_done: "1 \<le> step \<Longrightarrow> \<not> i < int n \<Longrightarrow> n_iter n step i = 0"
  unfolding n_iter_def
  by (smt (verit, best) div_neg_pos_less0 div_pos_pos_trivial nat_0_iff)

lemma chunk_at_shift: "chunk_at s csize step (i + step) k = chunk_at s csize step i (Suc k)"
  by (simp add: chunk_at_def algebra_simps)

text \<open>
  With a step of at least 1 the loop returns: from offset \<open>i\<close> it appends the slices at
  \<open>i\<close>, \<open>i + step\<close>, \<open>i + 2 * step\<close>, ... below the length. The measure is the distance
  of the offset to the length.
\<close>

lemma chunks_while_closed:
  assumes "1 \<le> step"
  shows "chunks_while s csize step out i =
           Some (out @ map (chunk_at s csize step i) [0..<n_iter (length s) step i])"
proof (induction "nat (int (length s) - i)" arbitrary: i out rule: less_induct)
  case less
  show ?case
  proof (cases "i < int (length s)")
    case True
    have dec: "nat (int (length s) - (i + step)) < nat (int (length s) - i)"
      using assms True by linarith
    have "chunks_while s csize step out i =
            chunks_while s csize step (out @ [py_slice s i (i + csize)]) (i + step)"
      using True by (subst chunks_while.simps) simp
    also have "\<dots> = Some ((out @ [py_slice s i (i + csize)]) @
                  map (chunk_at s csize step (i + step)) [0..<n_iter (length s) step (i + step)])"
      by (rule less.hyps [OF dec])
    also have "py_slice s i (i + csize) = chunk_at s csize step i 0"
      by (simp add: chunk_at_def)
    finally show ?thesis
      by (simp add: n_iter_step [OF assms True] chunk_at_shift map_upt_Suc del: upt_Suc)
  next
    case False
    then show ?thesis
      by (subst chunks_while.simps) (simp add: n_iter_done [OF assms])
  qed
qed

text \<open>Without the clamp the loop would not return: a step of 0 or less never leaves it.\<close>

lemma chunks_while_diverges_aux:
  assumes "chunks_while s csize step out i = Some y"
  shows "\<not> (step \<le> 0 \<and> i < int (length s))"
proof (rule chunks_while.raw_induct
    [where P = "\<lambda>s csize step out i y. \<not> (step \<le> 0 \<and> i < int (length s))", OF _ assms],
    goal_cases)
  case (1 f s csize step out i y)
  show ?case
  proof
    assume a: "step \<le> 0 \<and> i < int (length s)"
    then have "f s csize step (out @ [py_slice s i (i + csize)]) (i + step) = Some y"
      using 1(2) by simp
    then have "\<not> (step \<le> 0 \<and> i + step < int (length s))"
      by (rule 1(1))
    with a show False by simp
  qed
qed

lemma chunks_while_diverges:
  "step \<le> 0 \<Longrightarrow> i < int (length s) \<Longrightarrow> chunks_while s csize step out i = None"
  using chunks_while_diverges_aux [of s csize step out i]
  by (cases "chunks_while s csize step out i") auto

lemma chunk_step_pos: "1 \<le> chunk_step csize overlap"
  by (simp add: chunk_step_def)

lemma chunks_closed:
  "chunks s csize overlap =
     Some (map (chunk_at s csize (chunk_step csize overlap) 0)
             [0..<nat \<lceil>real (length s) / real_of_int (chunk_step csize overlap)\<rceil>])"
proof (cases "s = []")
  case True
  then show ?thesis by (simp add: chunks_def)
next
  case False
  then show ?thesis
    by (simp add: chunks_def chunks_while_closed [OF chunk_step_pos]
        n_iter_ceiling [OF chunk_step_pos])
qed

lemma py_slice_take_drop:
  "0 \<le> lo \<Longrightarrow> 0 \<le> n \<Longrightarrow> py_slice xs lo (lo + n) = take (nat n) (drop (nat lo) xs)"
  by (auto simp: py_slice_def slice_index_def Let_def min_def nat_add_distrib)

lemma chunk_at_take_drop:
  "0 \<le> csize \<Longrightarrow> 0 \<le> step \<Longrightarrow>
     chunk_at s csize step 0 k = take (nat csize) (drop (k * nat step) s)"
  by (simp add: chunk_at_def py_slice_take_drop nat_mult_distrib)

lemma cover_index:
  assumes "1 \<le> step" "p < n"
  shows "p div nat step < nat \<lceil>real n / real_of_int step\<rceil>"
proof -
  have "int p div step + 1 = (int p + step) div step"
    using assms by simp
  also have "\<dots> \<le> (int n + step - 1) div step"
    using assms by (intro zdiv_mono1) auto
  finally have "int p div step < (int n + step - 1) div step" by simp
  moreover have "int (p div nat step) = int p div step"
    using assms by (simp add: zdiv_int)
  ultimately show ?thesis
    using n_iter_ceiling [OF assms(1), of n] by (simp add: n_iter_def)
qed

text \<open>
  Claim C1. For every string \<open>s\<close> and every valid pair with \<open>csize \<ge> 128\<close> and
  \<open>0 \<le> overlap < csize\<close>, \<open>chunks\<close> returns the substrings \<open>s[i:i+csize]\<close> at the
  offsets \<open>i = 0, step, 2 * step, ...\<close> (\<open>step = csize - overlap\<close>) below \<open>len(s)\<close>; their
  number is \<open>\<lceil>len(s) / (csize - overlap)\<rceil>\<close>; every position of \<open>s\<close> lies in the range of
  some chunk, which holds the character of \<open>s\<close> at that position; and the chunks of the
  empty string are the empty list.
\<close>

theorem chunks_valid_parameters:
  assumes "128 \<le> csize" and "0 \<le> overlap" and "overlap < csize"
  shows "(\<exists>out. chunks s csize overlap = Some out
            \<and> out = map (\<lambda>k. take (nat csize) (drop (k * nat (csize - overlap)) s))
                      [0..<nat \<lceil>real (length s) / real_of_int (csize - overlap)\<rceil>]
            \<and> length out = nat \<lceil>real (length s) / real_of_int (csize - overlap)\<rceil>
            \<and> (\<forall>p<length s. \<exists>k<length out.
                   k * nat (csize - overlap) \<le> p
                 \<and> p - k * nat (csize - overlap) < length (out ! k)
                 \<and> (out ! k) ! (p - k * nat (csize - overlap)) = s ! p))
       \<and> chunks [] csize overlap = Some []"
proof -
  define step where "step = csize - overlap"
  define n where "n = nat \<lceil>real (length s) / real_of_int step\<rceil>"
  define out where "out = map (\<lambda>k. take (nat csize) (drop (k * nat step) s)) [0..<n]"
  have step: "chunk_step csize overlap = step" "1 \<le> step" "step \<le> csize"
    using assms by (simp_all add: chunk_step_def step_def)
  have csize: "0 \<le> csize" using assms by simp
  have run: "chunks s csize overlap = Some out"
    using csize step(2)
    by (simp add: chunks_closed step(1) out_def n_def chunk_at_take_drop)
  have len: "length out = n"
    by (simp add: out_def)
  have cover: "\<exists>k<length out. k * nat step \<le> p \<and> p - k * nat step < length (out ! k)
                 \<and> (out ! k) ! (p - k * nat step) = s ! p" if p: "p < length s" for p
  proof -
    define k where "k = p div nat step"
    have k: "k < n"
      unfolding k_def n_def using step(2) p by (rule cover_index)
    have pos: "0 < nat step" using step(2) by simp
    have lo: "k * nat step \<le> p"
      by (simp add: k_def)
    have "p mod nat step < nat step"
      using pos by simp
    then have hi: "p - k * nat step < nat csize"
      using step(3) by (simp add: k_def minus_div_mult_eq_mod)
    have outk: "out ! k = take (nat csize) (drop (k * nat step) s)"
      using k by (simp add: out_def)
    have "p - k * nat step < length (out ! k)"
      using hi lo p by (simp add: outk)
    moreover have "(out ! k) ! (p - k * nat step) = s ! p"
      using hi lo p by (simp add: outk)
    ultimately show ?thesis
      using k lo len by blast
  qed
  have "chunks [] csize overlap = Some []"
    by (simp add: chunks_def)
  with run len cover show ?thesis
    unfolding out_def n_def step_def by blast
qed

theorem chunks_valid_parameters_witness:
  "(128::int) \<le> 128 \<and> (0::int) \<le> 28 \<and> (28::int) < 128
   \<and> chunks (replicate 100 CHR ''a'' @ replicate 100 CHR ''b'' @ replicate 50 CHR ''c'') 128 28
       = Some [replicate 100 CHR ''a'' @ replicate 28 CHR ''b'',
               replicate 100 CHR ''b'' @ replicate 28 CHR ''c'',
               replicate 50 CHR ''c'']
   \<and> chunks [] 128 28 = Some []"
  using chunks_valid_parameters
    [of 128 28 "replicate 100 CHR ''a'' @ replicate 100 CHR ''b'' @ replicate 50 CHR ''c''"]
  by (simp add: numeral_eq_Suc)

text \<open>
  Claim C10. The chunker terminates on every input: for every string and all integers
  \<open>csize\<close> and \<open>overlap\<close> (also \<open>overlap \<ge> csize\<close>, a negative overlap, or
  \<open>csize - overlap \<le> 0\<close>) the step is \<open>max 1 (csize - overlap) \<ge> 1\<close>, an offset \<open>i\<close>
  moves to the strictly larger \<open>i + step\<close>, and \<open>chunks\<close> returns a list: the
  slices at the offsets \<open>0, step, 2 * step, ...\<close>, \<open>\<lceil>len(s) / step\<rceil>\<close> of them.
\<close>

theorem chunks_terminates:
  "1 \<le> chunk_step csize overlap
   \<and> i < i + chunk_step csize overlap
   \<and> (\<exists>out. chunks s csize overlap = Some out
        \<and> out = map (\<lambda>k. py_slice s (int k * chunk_step csize overlap)
                                    (int k * chunk_step csize overlap + csize))
                   [0..<nat \<lceil>real (length s) / real_of_int (chunk_step csize overlap)\<rceil>]
        \<and> length out = nat \<lceil>real (length s) / real_of_int (chunk_step csize overlap)\<rceil>)"
proof -
  have "chunk_at s csize (chunk_step csize overlap) 0 =
          (\<lambda>k. py_slice s (int k * chunk_step csize overlap)
                          (int k * chunk_step csize overlap + csize))"
    by (rule ext) (simp add: chunk_at_def)
  then show ?thesis
    using chunk_step_pos [of csize overlap] by (simp add: chunks_closed)
qed

section \<open>Properties of the configuration patch\<close>

lemmas set_config_defs =
  set_config_def set_EMBED_BATCH_def set_UPSERT_BATCH_def set_CHUNK_SIZE_def
  set_CHUNK_OVERLAP_def Let_def

lemma RUNTIME_default_eq:
  "RUNTIME_default = \<lparr>EMBED_BATCH = 32, UPSERT_BATCH = 256, CHUNK_SIZE = 800, CHUNK_OVERLAP = 120\<rparr>"
  by (simp add: RUNTIME_default_def RUNTIME_init_def getenv_int_def)

lemma config_valid_default: "config_valid RUNTIME_default"
  by (simp add: RUNTIME_default_eq config_valid_def)

text \<open>What set_config does keep: every bound but the one between overlap and size.\<close>

lemma set_config_keeps:
  assumes "CHUNK_SIZE R \<ge> 128" "0 \<le> CHUNK_OVERLAP R" "EMBED_BATCH R > 0" "UPSERT_BATCH R > 0"
  shows "CHUNK_SIZE (snd (set_config p R)) \<ge> 128 \<and> 0 \<le> CHUNK_OVERLAP (snd (set_config p R))
         \<and> EMBED_BATCH (snd (set_config p R)) > 0 \<and> UPSERT_BATCH (snd (set_config p R)) > 0"
  using assms by (auto simp: set_config_defs Let_def split: option.splits)

text \<open>
  Claim C6. Starting from the default configuration, \<open>CHUNK_SIZE \<ge> 128\<close>,
  \<open>0 \<le> CHUNK_OVERLAP < CHUNK_SIZE\<close>, \<open>EMBED_BATCH > 0\<close> and \<open>UPSERT_BATCH > 0\<close> should
  hold after every sequence of patches. They do not: the patch of \<open>CHUNK_SIZE\<close> is not
  checked against the overlap already stored. From the defaults, patching
  \<open>CHUNK_OVERLAP\<close> to 500 and then \<open>CHUNK_SIZE\<close> to 128 are both accepted and leave
  \<open>CHUNK_OVERLAP = 500 \<ge> CHUNK_SIZE = 128\<close>.
\<close>

theorem set_config_breaks_overlap_bound:
  "config_valid RUNTIME_default
   \<and> set_configs [no_patch\<lparr>patch_CHUNK_OVERLAP := Some 500\<rparr>, no_patch\<lparr>patch_CHUNK_SIZE := Some 128\<rparr>]
        RUNTIME_default
      = \<lparr>EMBED_BATCH = 32, UPSERT_BATCH = 256, CHUNK_SIZE = 128, CHUNK_OVERLAP = 500\<rparr>
   \<and> \<not> config_valid (set_configs
        [no_patch\<lparr>patch_CHUNK_OVERLAP := Some 500\<rparr>, no_patch\<lparr>patch_CHUNK_SIZE := Some 128\<rparr>]
        RUNTIME_default)"
  by (simp add: RUNTIME_default_eq config_valid_def set_config_defs no_patch_def)

text \<open>
  Claim C7. A patch request is validated field by field and never rejected: the response
  reports \<open>ok\<close> with the merged configuration, which a following \<open>get_config\<close> shows;
  a \<open>CHUNK_SIZE\<close> below 128, a \<open>CHUNK_OVERLAP\<close> that is negative or not below the
  \<open>CHUNK_SIZE\<close> in force once the request's own \<open>CHUNK_SIZE\<close> field is processed, and
  a batch size of 0 or less each leave their field unchanged; every valid field is
  applied; an absent field is unchanged.
\<close>

theorem set_config_per_field:
  "fst (set_config p R) = \<lparr>cfg_ok = True, cfg_runtime = snd (set_config p R)\<rparr>
   \<and> cfg_current (get_config E (snd (set_config p R))) = snd (set_config p R)
   \<and> (\<forall>v. patch_CHUNK_SIZE p = Some v \<and> v < 128 \<longrightarrow>
          CHUNK_SIZE (snd (set_config p R)) = CHUNK_SIZE R)
   \<and> (\<forall>v. patch_CHUNK_OVERLAP p = Some v \<and> (v < 0 \<or> v \<ge> CHUNK_SIZE (snd (set_config p R))) \<longrightarrow>
          CHUNK_OVERLAP (snd (set_config p R)) = CHUNK_OVERLAP R)
   \<and> (\<forall>v. patch_EMBED_BATCH p = Some v \<and> v \<le> 0 \<longrightarrow>
          EMBED_BATCH (snd (set_config p R)) = EMBED_BATCH R)
   \<and> (\<forall>v. patch_UPSERT_BATCH p = Some v \<and> v \<le> 0 \<longrightarrow>
          UPSERT_BATCH (snd (set_config p R)) = UPSERT_BATCH R)
   \<and> (\<forall>v. patch_CHUNK_SIZE p = Some v \<and> v \<ge> 128 \<longrightarrow> CHUNK_SIZE (snd (set_config p R)) = v)
   \<and> (\<forall>v. patch_CHUNK_OVERLAP p = Some v \<and> 0 \<le> v \<and> v < CHUNK_SIZE (snd (set_config p R)) \<longrightarrow>
          CHUNK_OVERLAP (snd (set_config p R)) = v)
   \<and> (\<forall>v. patch_EMBED_BATCH p = Some v \<and> v > 0 \<longrightarrow> EMBED_BATCH (snd (set_config p R)) = v)
   \<and> (\<forall>v. patch_UPSERT_BATCH p = Some v \<and> v > 0 \<longrightarrow> UPSERT_BATCH (snd (set_config p R)) = v)
   \<and> (patch_CHUNK_SIZE p = None \<longrightarrow> CHUNK_SIZE (snd (set_config p R)) = CHUNK_SIZE R)
   \<and> (patch_CHUNK_OVERLAP p = None \<longrightarrow> CHUNK_OVERLAP (snd (set_config p R)) = CHUNK_OVERLAP R)
   \<and> (patch_EMBED_BATCH p = None \<longrightarrow> EMBED_BATCH (snd (set_config p R)) = EMBED_BATCH R)
   \<and> (patch_UPSERT_BATCH p = None \<longrightarrow> UPSERT_BATCH (snd (set_config p R)) = UPSERT_BATCH R)"
  by (auto simp: set_config_defs get_config_def Let_def split: option.splits)

theorem set_config_per_field_witness:
  "fst (set_config \<lparr>patch_EMBED_BATCH = Some 0, patch_UPSERT_BATCH = Some (- 5),
                    patch_CHUNK_SIZE = Some 100, patch_CHUNK_OVERLAP = Some 900\<rparr> RUNTIME_default)
     = \<lparr>cfg_ok = True, cfg_runtime = RUNTIME_default\<rparr>
   \<and> fst (set_config \<lparr>patch_EMBED_BATCH = Some 8, patch_UPSERT_BATCH = Some 64,
                    patch_CHUNK_SIZE = Some 1000, patch_CHUNK_OVERLAP = Some 900\<rparr> RUNTIME_default)
     = \<lparr>cfg_ok = True,
        cfg_runtime = \<lparr>EMBED_BATCH = 8, UPSERT_BATCH = 64, CHUNK_SIZE = 1000, CHUNK_OVERLAP = 900\<rparr>\<rparr>
   \<and> cfg_current (get_config settings_default (snd (set_config
        \<lparr>patch_EMBED_BATCH = Some 8, patch_UPSERT_BATCH = Some 64,
         patch_CHUNK_SIZE = Some 1000, patch_CHUNK_OVERLAP = Some 900\<rparr> RUNTIME_default)))
     = \<lparr>EMBED_BATCH = 8, UPSERT_BATCH = 64, CHUNK_SIZE = 1000, CHUNK_OVERLAP = 900\<rparr>
   \<and> fst (set_config \<lparr>patch_EMBED_BATCH = None, patch_UPSERT_BATCH = None,
                    patch_CHUNK_SIZE = None, patch_CHUNK_OVERLAP = Some (- 1)\<rparr> RUNTIME_default)
     = \<lparr>cfg_ok = True, cfg_runtime = RUNTIME_default\<rparr>"
  using
    set_config_per_field
      [of "\<lparr>patch_EMBED_BATCH = Some 0, patch_UPSERT_BATCH = Some (- 5),
            patch_CHUNK_SIZE = Some 100, patch_CHUNK_OVERLAP = Some 900\<rparr>" RUNTIME_default
        settings_default]
    set_config_per_field
      [of "\<lparr>patch_EMBED_BATCH = Some 8, patch_UPSERT_BATCH = Some 64,
            patch_CHUNK_SIZE = Some 1000, patch_CHUNK_OVERLAP = Some 900\<rparr>" RUNTIME_default
        settings_default]
    set_config_per_field
      [of "\<lparr>patch_EMBED_BATCH = None, patch_UPSERT_BATCH = None,
            patch_CHUNK_SIZE = None, patch_CHUNK_OVERLAP = Some (- 1)\<rparr>" RUNTIME_default
        settings_default]
  by (simp add: RUNTIME_default_eq set_config_defs)

section \<open>Properties of the text extraction\<close>

lemma returning_cases:
  "returning r = Inl e \<longleftrightarrow> r = Inl e" "returning r = Inr (Some t) \<longleftrightarrow> r = Inr t"
  "returning r \<noteq> Inr None"
  by (auto simp: returning_def split: sum.splits)

lemma extract_try_unrecognised:
  "\<not> recognised name ct \<Longrightarrow> extract_try X name ct b = Inr None"
  by (simp add: recognised_def extract_try_def)

lemma extract_try_recognised:
  "recognised name ct \<Longrightarrow> extract_try X name ct b \<noteq> Inr None"
  by (auto simp: recognised_def extract_try_def returning_cases)

text \<open>
  Claim C8. \<open>extract_text\<close> raises nothing to its caller. When the dispatch returns a
  text, that is the result. When a structured extractor raises, the exception is
  swallowed and the result is the UTF-8 decoding of the raw bytes, or the empty string
  when the decoding raises too. An unrecognised format gives the UTF-8 decoding of the
  bytes. So a recognised format never raises, and no format does as long as
  \<open>b.decode("utf-8", errors="ignore")\<close> returns, which it does on every \<open>bytes\<close> object.
\<close>

theorem extract_text_never_raises:
  "(\<forall>t. extract_try X (lower filename) (lower content_type) b = Inr (Some t) \<longrightarrow>
        extract_text X filename content_type b = Inr t)
   \<and> (\<forall>e. extract_try X (lower filename) (lower content_type) b = Inl e \<longrightarrow>
        extract_text X filename content_type b =
          Inr (case decode_utf8_ignore X b of Inr t \<Rightarrow> t | Inl e' \<Rightarrow> []))
   \<and> (\<not> recognised (lower filename) (lower content_type) \<longrightarrow>
        extract_text X filename content_type b = decode_utf8_ignore X b)
   \<and> (recognised (lower filename) (lower content_type) \<longrightarrow>
        (\<exists>t. extract_text X filename content_type b = Inr t))
   \<and> ((\<exists>d. decode_utf8_ignore X b = Inr d) \<longrightarrow>
        (\<exists>t. extract_text X filename content_type b = Inr t))"
proof (intro conjI allI impI)
  fix t assume "extract_try X (lower filename) (lower content_type) b = Inr (Some t)"
  then show "extract_text X filename content_type b = Inr t"
    by (simp add: extract_text_def)
next
  fix e assume "extract_try X (lower filename) (lower content_type) b = Inl e"
  then show "extract_text X filename content_type b =
          Inr (case decode_utf8_ignore X b of Inr t \<Rightarrow> t | Inl e' \<Rightarrow> [])"
    by (simp add: extract_text_def split: sum.splits)
next
  assume "\<not> recognised (lower filename) (lower content_type)"
  then show "extract_text X filename content_type b = decode_utf8_ignore X b"
    by (simp add: extract_text_def extract_try_unrecognised)
next
  assume "recognised (lower filename) (lower content_type)"
  then have "extract_try X (lower filename) (lower content_type) b \<noteq> Inr None"
    by (rule extract_try_recognised)
  then show "\<exists>t. extract_text X filename content_type b = Inr t"
    by (auto simp: extract_text_def split: sum.splits option.splits)
next
  assume "\<exists>d. decode_utf8_ignore X b = Inr d"
  then show "\<exists>t. extract_text X filename content_type b = Inr t"
    by (auto simp: extract_text_def split: sum.splits option.splits)
qed

theorem extract_text_never_raises_witness:
  "extract_try rejecting_extractors (lower ''Scan.PDF'') (lower ''application/octet-stream'')
       (ascii_encode ''hi'') = Inl (LibraryError ''not a PDF'')
   \<and> extract_text rejecting_extractors ''Scan.PDF'' ''application/octet-stream''
       (ascii_encode ''hi'') = Inr ''hi''
   \<and> \<not> recognised (lower ''blob.bin'') (lower ''application/octet-stream'')
   \<and> extract_text rejecting_extractors ''blob.bin'' ''application/octet-stream''
       (ascii_encode ''hi'') = Inr ''hi''
   \<and> extract_try rejecting_extractors (lower ''notes.TXT'') (lower '''')
       (ascii_encode ''hi'') = Inr (Some ''hi'')
   \<and> extract_text rejecting_extractors ''notes.TXT'' '''' (ascii_encode ''hi'') = Inr ''hi''
   \<and> extract_try raising_extractors (lower ''Scan.PDF'') (lower ''application/octet-stream'')
       (ascii_encode ''hi'') = Inl (LibraryError ''not a PDF'')
   \<and> decode_utf8_ignore raising_extractors (ascii_encode ''hi'') = Inl (LibraryError ''decode'')
   \<and> extract_text raising_extractors ''Scan.PDF'' ''application/octet-stream''
       (ascii_encode ''hi'') = Inr []"
proof -
  have raised2: "extract_try raising_extractors (lower ''Scan.PDF'')
      (lower ''application/octet-stream'') (ascii_encode ''hi'') = Inl (LibraryError ''not a PDF'')"
    by code_simp
  have undecoded: "decode_utf8_ignore raising_extractors (ascii_encode ''hi'')
      = Inl (LibraryError ''decode'')"
    by code_simp
  have raised: "extract_try rejecting_extractors (lower ''Scan.PDF'')
      (lower ''application/octet-stream'') (ascii_encode ''hi'') = Inl (LibraryError ''not a PDF'')"
    by code_simp
  have decoded: "decode_utf8_ignore rejecting_extractors (ascii_encode ''hi'') = Inr ''hi''"
    by code_simp
  have unknown: "\<not> recognised (lower ''blob.bin'') (lower ''application/octet-stream'')"
    by code_simp
  have plain: "extract_try rejecting_extractors (lower ''notes.TXT'') (lower '''')
       (ascii_encode ''hi'') = Inr (Some ''hi'')"
    by code_simp
  show ?thesis
    using raised decoded unknown plain raised2 undecoded
      extract_text_never_raises [of raising_extractors "''Scan.PDF''"
        "''application/octet-stream''" "ascii_encode ''hi''"]
      extract_text_never_raises [of rejecting_extractors "''Scan.PDF''"
        "''application/octet-stream''" "ascii_encode ''hi''"]
      extract_text_never_raises [of rejecting_extractors "''blob.bin''"
        "''application/octet-stream''" "ascii_encode ''hi''"]
      extract_text_never_raises [of rejecting_extractors "''notes.TXT''" "''''"
        "ascii_encode ''hi''"]
    by simp
qed

section \<open>Properties of the embedding client\<close>

lemma embed_batch_loop_Inr:
  "embed_batch_loop S texts acc = Inr vecs \<Longrightarrow>
     \<exists>vs. vecs = acc @ vs \<and> list_all2 (\<lambda>t v. embedding_for S t = Inr v) texts vs"
proof (induction texts arbitrary: acc)
  case Nil
  then show ?case by simp
next
  case (Cons t texts)
  show ?case
  proof (cases "is_blank t")
    case True
    then have "embed_batch_loop S texts (acc @ [replicate 768 0]) = Inr vecs"
      using Cons.prems by (auto simp: is_blank_def)
    from Cons.IH [OF this] obtain vs where
      "vecs = (acc @ [replicate 768 0]) @ vs" "list_all2 (\<lambda>t v. embedding_for S t = Inr v) texts vs"
      by blast
    then show ?thesis
      using True by (intro exI [of _ "replicate 768 0 # vs"]) (simp add: embedding_for_def)
  next
    case False
    then obtain v where v: "embeddings_api S t = Inr v"
      and run: "embed_batch_loop S texts (acc @ [v]) = Inr vecs"
      using Cons.prems by (auto simp: is_blank_def split: sum.splits)
    from Cons.IH [OF run] obtain vs where
      "vecs = (acc @ [v]) @ vs" "list_all2 (\<lambda>t v. embedding_for S t = Inr v) texts vs"
      by blast
    then show ?thesis
      using False v by (intro exI [of _ "v # vs"]) (simp add: embedding_for_def)
  qed
qed

lemma embed_batch_loop_returns:
  "list_all2 (\<lambda>t v. embedding_for S t = Inr v) texts vs \<Longrightarrow>
     embed_batch_loop S texts acc = Inr (acc @ vs)"
proof (induction texts arbitrary: acc vs)
  case Nil
  then show ?case by simp
next
  case (Cons t texts)
  then obtain v vs' where vs: "vs = v # vs'" "embedding_for S t = Inr v"
    "list_all2 (\<lambda>t v. embedding_for S t = Inr v) texts vs'"
    by (auto simp: list_all2_Cons1)
  show ?case
    using vs(2) Cons.IH [OF vs(3), of "acc @ [v]"]
    by (auto simp: vs(1) embedding_for_def is_blank_def split: if_splits)
qed

lemma embed_batch_Inr:
  "embed_batch S texts = Inr vecs \<longleftrightarrow> list_all2 (\<lambda>t v. embedding_for S t = Inr v) texts vecs"
proof
  assume "embed_batch S texts = Inr vecs"
  then show "list_all2 (\<lambda>t v. embedding_for S t = Inr v) texts vecs"
    using embed_batch_loop_Inr [of S texts "[]" vecs]
    by (auto simp: embed_batch_def split: if_splits)
next
  assume "list_all2 (\<lambda>t v. embedding_for S t = Inr v) texts vecs"
  then show "embed_batch S texts = Inr vecs"
    using embed_batch_loop_returns [of S texts vecs "[]"]
    by (auto simp: embed_batch_def)
qed

lemma embeddings_exist:
  assumes "\<forall>t\<in>set texts. \<not> is_blank t \<longrightarrow> (\<exists>v. embeddings_api S t = Inr v)"
  shows "\<exists>vs. list_all2 (\<lambda>t v. embedding_for S t = Inr v) texts vs"
  using assms
proof (induction texts)
  case Nil
  then show ?case by simp
next
  case (Cons t texts)
  then obtain vs where vs: "list_all2 (\<lambda>t v. embedding_for S t = Inr v) texts vs" by auto
  obtain v where "embedding_for S t = Inr v"
    using Cons.prems by (cases "is_blank t") (auto simp: embedding_for_def)
  with vs show ?case by (intro exI [of _ "v # vs"]) simp
qed

text \<open>
  Claim C2. When \<open>embed_batch\<close> returns, the list of vectors has the length of the input
  and is in input order: a blank or whitespace-only element has the all-zero vector of
  768 components at its position (it is not left out), and every other element has the
  embedding the remote service returned for it. It does return whenever the service
  answers every element that is not blank (an exception of the service is raised to the
  caller).
\<close>

theorem embed_batch_aligned:
  "(\<forall>vecs. embed_batch S texts = Inr vecs \<longrightarrow>
       length vecs = length texts
     \<and> (\<forall>k<length texts.
          (is_blank (texts ! k) \<longrightarrow> vecs ! k = replicate 768 0)
        \<and> (\<not> is_blank (texts ! k) \<longrightarrow> embeddings_api S (texts ! k) = Inr (vecs ! k))))
   \<and> ((\<forall>t\<in>set texts. \<not> is_blank t \<longrightarrow> (\<exists>v. embeddings_api S t = Inr v)) \<longrightarrow>
        (\<exists>vecs. embed_batch S texts = Inr vecs))"
proof -
  have first: "length vecs = length texts
     \<and> (\<forall>k<length texts.
          (is_blank (texts ! k) \<longrightarrow> vecs ! k = replicate 768 0)
        \<and> (\<not> is_blank (texts ! k) \<longrightarrow> embeddings_api S (texts ! k) = Inr (vecs ! k)))"
    if run: "embed_batch S texts = Inr vecs" for vecs
  proof -
    from run have all: "list_all2 (\<lambda>t v. embedding_for S t = Inr v) texts vecs"
      by (simp add: embed_batch_Inr)
    have nth: "embedding_for S (texts ! k) = Inr (vecs ! k)" if "k < length texts" for k
      using all that by (rule list_all2_nthD)
    have "(is_blank (texts ! k) \<longrightarrow> vecs ! k = replicate 768 0)
        \<and> (\<not> is_blank (texts ! k) \<longrightarrow> embeddings_api S (texts ! k) = Inr (vecs ! k))"
      if "k < length texts" for k
      using nth [OF that] by (auto simp: embedding_for_def split: if_splits)
    moreover have "length vecs = length texts"
      using all by (simp add: list_all2_lengthD)
    ultimately show ?thesis by blast
  qed
  have second: "\<exists>vecs. embed_batch S texts = Inr vecs"
    if ok: "\<forall>t\<in>set texts. \<not> is_blank t \<longrightarrow> (\<exists>v. embeddings_api S t = Inr v)"
  proof -
    obtain vs where "list_all2 (\<lambda>t v. embedding_for S t = Inr v) texts vs"
      using embeddings_exist [OF ok] by blast
    then show ?thesis by (auto simp: embed_batch_Inr)
  qed
  from first second show ?thesis by blast
qed

theorem embed_batch_aligned_witness:
  "embed_batch demo_services [''ab'', '' '', [], ''c'']
     = Inr [[2, 1, 2, 3], replicate 768 0, replicate 768 0, [1, 1, 2, 3]]
   \<and> length [[2, 1, 2, 3], replicate 768 0, replicate 768 0, [1, 1, 2, 3::real]]
     = length [''ab'', '' '', [], ''c'']
   \<and> is_blank '' '' \<and> is_blank [] \<and> \<not> is_blank ''ab'' \<and> \<not> is_blank ''c''
   \<and> embeddings_api demo_services ''ab'' = Inr [2, 1, 2, 3]
   \<and> embeddings_api demo_services ''c'' = Inr [1, 1, 2, 3]"
proof -
  have blank: "is_blank '' ''" "is_blank []" "\<not> is_blank ''ab''" "\<not> is_blank ''c''"
    by (simp_all add: is_blank_def strip_def py_isspace_def)
  have api: "embeddings_api demo_services ''ab'' = Inr [2, 1, 2, 3]"
    "embeddings_api demo_services ''c'' = Inr [1, 1, 2, 3]"
    by (simp_all add: demo_services_def)
  have run: "embed_batch demo_services [''ab'', '' '', [], ''c'']
     = Inr [[2, 1, 2, 3], replicate 768 0, replicate 768 0, [1, 1, 2, 3]]"
    using api by (simp add: embed_batch_def strip_def py_isspace_def)
  from embed_batch_aligned [of demo_services "[''ab'', '' '', [], ''c'']"] run
  have "length [[2, 1, 2, 3], replicate 768 0, replicate 768 0, [1, 1, 2, 3::real]]
     = length [''ab'', '' '', [], ''c'']"
    by blast
  with run blank api show ?thesis by blast
qed

section \<open>Properties of the batching loops\<close>

lemma concat_take_batches:
  "concat (map (\<lambda>k. take n (drop (k * n) xs)) [0..<m]) = take (m * n) xs"
proof (induction m)
  case 0
  then show ?case by simp
next
  case (Suc m)
  have "take (m * n) xs @ take n (drop (m * n) xs) = take (m * n + n) xs"
    by (simp add: take_add)
  then show ?case using Suc by (simp add: add.commute)
qed

lemma n_iter_covers:
  assumes "1 \<le> n"
  shows "length xs \<le> n_iter (length xs) n 0 * nat n"
proof -
  have "int (length xs) \<le> ((int (length xs) + n - 1) div n) * n"
  proof -
    have "(int (length xs) + n - 1) mod n < n" using assms by simp
    moreover have "(int (length xs) + n - 1) div n * n + (int (length xs) + n - 1) mod n
        = int (length xs) + n - 1" by simp
    ultimately show ?thesis by linarith
  qed
  moreover have "0 \<le> (int (length xs) + n - 1) div n"
    using assms by (simp add: pos_imp_zdiv_nonneg_iff)
  ultimately have "int (length xs) \<le> int (n_iter (length xs) n 0 * nat n)"
    using assms by (simp add: n_iter_def)
  then show ?thesis by linarith
qed

lemma chunk_list_pos:
  assumes "0 < n"
  shows "chunk_list xs n =
           Inr (map (\<lambda>k. take (nat n) (drop (k * nat n) xs)) [0..<n_iter (length xs) n 0])"
proof -
  have "py_slice xs (int k * n) (int k * n + n) = take (nat n) (drop (k * nat n) xs)" for k
    using assms by (subst py_slice_take_drop) (simp_all add: nat_mult_distrib)
  then show ?thesis
    using assms by (simp add: chunk_list_def py_range0_def n_iter_def comp_def)
qed

lemma chunk_list_concat:
  assumes "0 < n"
  shows "\<exists>bs. chunk_list xs n = Inr bs \<and> concat bs = xs"
  using assms n_iter_covers [of n xs]
  by (simp add: chunk_list_pos concat_take_batches)

lemma upsert_loop_spec:
  "upsert_loop S E ups tp W = (res, W') \<Longrightarrow>
     \<exists>j\<le>length ups. W' = W\<lparr>upserted := upserted W @ concat (take j ups)\<rparr>
       \<and> (\<forall>t. res = Inr t \<longrightarrow> j = length ups \<and> t = tp + int (length (concat ups)))
       \<and> (upserts_accepted S E \<longrightarrow> (\<exists>t. res = Inr t))"
proof (induction ups arbitrary: tp W)
  case Nil
  then have "res = Inr tp" "W' = W" by simp_all
  then show ?case by simp
next
  case (Cons up ups)
  show ?case
  proof (cases "qdrant_fails S (Upsert (COLL E) up)")
    case (Some e)
    then have r: "res = Inl e" "W' = W"
      using Cons.prems by (simp_all add: qdrant_upsert_def)
    have "\<not> upserts_accepted S E"
      using Some by (auto simp: upserts_accepted_def)
    then show ?thesis
      using r by (intro exI [of _ 0]) simp
  next
    case None
    define W1 where "W1 = W\<lparr>upserted := upserted W @ up\<rparr>"
    have "upsert_loop S E ups (tp + int (length up)) W1 = (res, W')"
      using Cons.prems None by (simp add: qdrant_upsert_def W1_def)
    from Cons.IH [OF this] obtain j where j: "j \<le> length ups"
      and W': "W' = W1\<lparr>upserted := upserted W1 @ concat (take j ups)\<rparr>"
      and ok: "\<forall>t. res = Inr t \<longrightarrow>
                j = length ups \<and> t = tp + int (length up) + int (length (concat ups))"
      and acc: "upserts_accepted S E \<longrightarrow> (\<exists>t. res = Inr t)"
      by blast
    have "Suc j \<le> length (up # ups)"
      using j by simp
    moreover have "W' = W\<lparr>upserted := upserted W @ concat (take (Suc j) (up # ups))\<rparr>"
      by (simp add: W' W1_def)
    moreover have "\<forall>t. res = Inr t \<longrightarrow>
        Suc j = length (up # ups) \<and> t = tp + int (length (concat (up # ups)))"
      using ok by auto
    ultimately show ?thesis
      using acc by blast
  qed
qed

lemma py_index_in_range: "i < length xs \<Longrightarrow> py_index xs (int i) = Inr (xs ! i)"
  by (simp add: py_index_def)

lemma ingest_pts_loop_spec:
  assumes "i0 + length vs \<le> length ch_batch" "n0 + i0 + length vs \<le> length meta"
  shows "ingest_pts_loop S meta ch_batch (int n0) (enumerate i0 vs) pts W =
           (Inr (pts @ map (\<lambda>j. new_point meta ch_batch n0 (uuid4 S (uuid_count W + j)) (vs ! j)
                                  (i0 + j)) [0..<length vs]),
            W\<lparr>uuid_count := uuid_count W + length vs\<rparr>)"
  using assms
proof (induction vs arbitrary: i0 pts W)
  case Nil
  then show ?case by simp
next
  case (Cons v vs)
  have i0: "i0 < length ch_batch" "n0 + i0 < length meta"
    using Cons.prems by simp_all
  have m: "py_index meta (int n0 + int i0) = Inr (meta ! (n0 + i0))"
    using py_index_in_range [OF i0(2)] by simp
  have step: "ingest_pts_loop S meta ch_batch (int n0) (enumerate i0 (v # vs)) pts W =
      ingest_pts_loop S meta ch_batch (int n0) (enumerate (Suc i0) vs)
        (pts @ [new_point meta ch_batch n0 (uuid4 S (uuid_count W)) v i0])
        (W\<lparr>uuid_count := uuid_count W + 1\<rparr>)"
    using i0 m by (simp add: draw_uuid_def py_index_in_range new_point_def)
  have "Suc i0 + length vs \<le> length ch_batch" "n0 + Suc i0 + length vs \<le> length meta"
    using Cons.prems by simp_all
  note IH = Cons.IH [OF this]
  show ?case
    unfolding step IH
    by (simp add: map_upt_Suc del: upt_Suc)
qed

lemma ingest_urls_pts_loop_spec:
  assumes "i0 + length vs \<le> length ch_batch" "n0 + i0 + length vs \<le> length meta"
  shows "ingest_urls_pts_loop S meta ch_batch (int n0) (enumerate i0 vs) pts W =
           (Inr (pts @ map (\<lambda>j. new_point meta ch_batch n0 (uuid4 S (uuid_count W + j)) (vs ! j)
                                  (i0 + j)) [0..<length vs]),
            W\<lparr>uuid_count := uuid_count W + length vs\<rparr>)"
  using assms
proof (induction vs arbitrary: i0 pts W)
  case Nil
  then show ?case by simp
next
  case (Cons v vs)
  have i0: "i0 < length ch_batch" "n0 + i0 < length meta"
    using Cons.prems by simp_all
  have m: "py_index meta (int n0 + int i0) = Inr (meta ! (n0 + i0))"
    using py_index_in_range [OF i0(2)] by simp
  have step: "ingest_urls_pts_loop S meta ch_batch (int n0) (enumerate i0 (v # vs)) pts W =
      ingest_urls_pts_loop S meta ch_batch (int n0) (enumerate (Suc i0) vs)
        (pts @ [new_point meta ch_batch n0 (uuid4 S (uuid_count W)) v i0])
        (W\<lparr>uuid_count := uuid_count W + 1\<rparr>)"
    using i0 m by (simp add: draw_uuid_def py_index_in_range new_point_def)
  have "Suc i0 + length vs \<le> length ch_batch" "n0 + Suc i0 + length vs \<le> length meta"
    using Cons.prems by simp_all
  note IH = Cons.IH [OF this]
  show ?case
    unfolding step IH
    by (simp add: map_upt_Suc del: upt_Suc)
qed

lemma builds_points_ingest: "builds_points ingest_pts"
  by (simp add: builds_points_def ingest_pts_def
      ingest_pts_loop_spec [where ?i0.0 = 0 and pts = "[]", simplified])

lemma builds_points_ingest_urls: "builds_points ingest_urls_pts"
  by (simp add: builds_points_def ingest_urls_pts_def
      ingest_urls_pts_loop_spec [where ?i0.0 = 0 and pts = "[]", simplified])

lemma aligned_Nil: "aligned S meta u0 n0 cs []"
  by (simp add: aligned_def)

lemma aligned_extend:
  "aligned S meta u0 n0 b new \<Longrightarrow> aligned S meta u0 n0 (b @ rest) new"
  by (auto simp: aligned_def nth_append)

lemma aligned_append:
  assumes "aligned S meta u0 n0 b new1" "length new1 = length b"
    and "aligned S meta (u0 + length b) (n0 + length b) rest new2"
  shows "aligned S meta u0 n0 (b @ rest) (new1 @ new2)"
  unfolding aligned_def
proof (intro conjI allI impI)
  show "length (new1 @ new2) \<le> length (b @ rest)"
    using assms by (simp add: aligned_def)
next
  fix i assume i: "i < length (new1 @ new2)"
  show "pt_id ((new1 @ new2) ! i) = uuid4 S (u0 + i)"
    "embedding_for S ((b @ rest) ! i) = Inr (pt_vector ((new1 @ new2) ! i))"
    "p_text (pt_payload ((new1 @ new2) ! i)) = (b @ rest) ! i"
    "p_project (pt_payload ((new1 @ new2) ! i)) = m_project (meta ! (n0 + i))"
    "p_file (pt_payload ((new1 @ new2) ! i)) = m_file (meta ! (n0 + i))"
  proof -
    consider "i < length b" | "length b \<le> i" "i - length b < length new2"
      using i assms(2) by fastforce
    then have "pt_id ((new1 @ new2) ! i) = uuid4 S (u0 + i)
      \<and> embedding_for S ((b @ rest) ! i) = Inr (pt_vector ((new1 @ new2) ! i))
      \<and> p_text (pt_payload ((new1 @ new2) ! i)) = (b @ rest) ! i
      \<and> p_project (pt_payload ((new1 @ new2) ! i)) = m_project (meta ! (n0 + i))
      \<and> p_file (pt_payload ((new1 @ new2) ! i)) = m_file (meta ! (n0 + i))"
    proof cases
      case 1
      then show ?thesis
        using assms(1,2) by (simp add: aligned_def nth_append)
    next
      case 2
      then show ?thesis
        using assms(2,3) by (simp add: aligned_def nth_append)
    qed
    then show "pt_id ((new1 @ new2) ! i) = uuid4 S (u0 + i)"
      "embedding_for S ((b @ rest) ! i) = Inr (pt_vector ((new1 @ new2) ! i))"
      "p_text (pt_payload ((new1 @ new2) ! i)) = (b @ rest) ! i"
      "p_project (pt_payload ((new1 @ new2) ! i)) = m_project (meta ! (n0 + i))"
      "p_file (pt_payload ((new1 @ new2) ! i)) = m_file (meta ! (n0 + i))"
      by simp_all
  qed
qed

lemma embeddings_answer_all2:
  "embeddings_answer S cs \<Longrightarrow> \<exists>vs. list_all2 (\<lambda>t v. embedding_for S t = Inr v) cs vs"
proof (induction cs)
  case Nil
  then show ?case by simp
next
  case (Cons t cs)
  then obtain vs v where "list_all2 (\<lambda>t v. embedding_for S t = Inr v) cs vs"
    "embedding_for S t = Inr v"
    by (auto simp: embeddings_answer_def)
  then show ?case by (intro exI [of _ "v # vs"]) simp
qed

lemma embeddings_answer_append:
  "embeddings_answer S (xs @ ys) \<longleftrightarrow> embeddings_answer S xs \<and> embeddings_answer S ys"
  by (auto simp: embeddings_answer_def)

lemma embed_upsert_batch_spec:
  assumes build: "builds_points build"
    and run: "embed_upsert_batch build S E R meta b (int n0) W = (res, W')"
    and meta: "n0 + length b \<le> length meta"
    and ub: "0 < UPSERT_BATCH R"
  shows "\<exists>new. upserted W' = upserted W @ new \<and> collections W' = collections W
           \<and> aligned S meta (uuid_count W) n0 b new
           \<and> (\<forall>t. res = Inr t \<longrightarrow> t = int (n0 + length b) \<and> length new = length b
                  \<and> uuid_count W' = uuid_count W + length b)
           \<and> (embeddings_answer S b \<and> upserts_accepted S E \<longrightarrow> (\<exists>t. res = Inr t))"
proof (cases "embed_batch S b")
  case (Inl e)
  then have "res = Inl e" "W' = W"
    using run by (simp_all add: embed_upsert_batch_def)
  moreover have "\<not> embeddings_answer S b"
  proof
    assume "embeddings_answer S b"
    then obtain vs where "list_all2 (\<lambda>t v. embedding_for S t = Inr v) b vs"
      using embeddings_answer_all2 by blast
    then have "embed_batch S b = Inr vs"
      by (simp add: embed_batch_Inr)
    with Inl show False by simp
  qed
  ultimately show ?thesis
    by (intro exI [of _ "[]"]) (simp add: aligned_Nil)
next
  case (Inr vecs)
  then have all: "list_all2 (\<lambda>t v. embedding_for S t = Inr v) b vecs"
    by (simp add: embed_batch_Inr)
  then have len: "length vecs = length b"
    by (simp add: list_all2_lengthD)
  define pts where "pts = map (\<lambda>j. new_point meta b n0 (uuid4 S (uuid_count W + j)) (vecs ! j) j)
                  [0..<length vecs]"
  define W1 where "W1 = W\<lparr>uuid_count := uuid_count W + length vecs\<rparr>"
  have built: "build S meta b (int n0) vecs W = (Inr pts, W1)"
    using build meta len unfolding builds_points_def pts_def W1_def by simp
  obtain ups where ups: "chunk_list pts (UPSERT_BATCH R) = Inr ups" "concat ups = pts"
    using chunk_list_concat [OF ub] by blast
  have "upsert_loop S E ups (int n0) W1 = (res, W')"
    using run Inr built ups by (simp add: embed_upsert_batch_def)
  from upsert_loop_spec [OF this] obtain j where j: "j \<le> length ups"
    "W' = W1\<lparr>upserted := upserted W1 @ concat (take j ups)\<rparr>"
    "\<forall>t. res = Inr t \<longrightarrow> j = length ups \<and> t = int n0 + int (length (concat ups))"
    "upserts_accepted S E \<longrightarrow> (\<exists>t. res = Inr t)"
    by blast
  define new where "new = concat (take j ups)"
  have split: "pts = new @ concat (drop j ups)"
    unfolding new_def using ups(2) by (metis append_take_drop_id concat_append)
  have lenpts: "length pts = length b"
    by (simp add: pts_def len)
  have lennew: "length new \<le> length b"
    using split lenpts by (metis length_append le_add1)
  have nth: "new ! i = pts ! i" if "i < length new" for i
    using that split by (simp add: nth_append)
  have ptsi: "pts ! i = new_point meta b n0 (uuid4 S (uuid_count W + i)) (vecs ! i) i"
    if "i < length b" for i
    using that by (simp add: pts_def len)
  have "aligned S meta (uuid_count W) n0 b new"
    unfolding aligned_def
  proof (intro conjI allI impI)
    show "length new \<le> length b" by (rule lennew)
  next
    fix i assume i: "i < length new"
    then have ib: "i < length b" using lennew by simp
    have emb: "embedding_for S (b ! i) = Inr (vecs ! i)"
      using all ib by (rule list_all2_nthD)
    show "pt_id (new ! i) = uuid4 S (uuid_count W + i)"
      "embedding_for S (b ! i) = Inr (pt_vector (new ! i))"
      "p_text (pt_payload (new ! i)) = b ! i"
      "p_project (pt_payload (new ! i)) = m_project (meta ! (n0 + i))"
      "p_file (pt_payload (new ! i)) = m_file (meta ! (n0 + i))"
      using emb by (simp_all add: nth [OF i] ptsi [OF ib] new_point_def)
  qed
  moreover have "upserted W' = upserted W @ new" "collections W' = collections W"
    by (simp_all add: j(2) W1_def new_def)
  moreover have "t = int (n0 + length b) \<and> length new = length b
      \<and> uuid_count W' = uuid_count W + length b" if "res = Inr t" for t
  proof -
    from j(3) that have "j = length ups" "t = int n0 + int (length (concat ups))" by auto
    then show ?thesis
      using ups(2) lenpts by (simp add: new_def j(2) W1_def len)
  qed
  ultimately show ?thesis
    using j(4) by blast
qed

lemma embed_upsert_loop_spec:
  assumes build: "builds_points build" and ub: "0 < UPSERT_BATCH R"
    and run: "embed_upsert_loop build S E R meta bs (int n0) W = (res, W')"
    and meta: "n0 + length (concat bs) \<le> length meta"
  shows "\<exists>new. upserted W' = upserted W @ new \<and> collections W' = collections W
           \<and> aligned S meta (uuid_count W) n0 (concat bs) new
           \<and> (\<forall>t. res = Inr t \<longrightarrow> t = int (n0 + length (concat bs))
                  \<and> length new = length (concat bs)
                  \<and> uuid_count W' = uuid_count W + length (concat bs))
           \<and> (embeddings_answer S (concat bs) \<and> upserts_accepted S E \<longrightarrow> (\<exists>t. res = Inr t))"
  using run meta
proof (induction bs arbitrary: n0 W)
  case Nil
  then show ?case
    by (intro exI [of _ "[]"]) (auto simp: aligned_Nil)
next
  case (Cons b bs)
  obtain r1 W1 where first: "embed_upsert_batch build S E R meta b (int n0) W = (r1, W1)"
    by (cases "embed_upsert_batch build S E R meta b (int n0) W")
  have mb: "n0 + length b \<le> length meta"
    using Cons.prems(2) by simp
  from embed_upsert_batch_spec [OF build first mb ub] obtain new1 where new1:
    "upserted W1 = upserted W @ new1" "collections W1 = collections W"
    "aligned S meta (uuid_count W) n0 b new1"
    "\<forall>t. r1 = Inr t \<longrightarrow> t = int (n0 + length b) \<and> length new1 = length b
          \<and> uuid_count W1 = uuid_count W + length b"
    "embeddings_answer S b \<and> upserts_accepted S E \<longrightarrow> (\<exists>t. r1 = Inr t)"
    by blast
  show ?case
  proof (cases r1)
    case (Inl e)
    then have "res = Inl e" "W' = W1"
      using Cons.prems(1) first by simp_all
    moreover have "aligned S meta (uuid_count W) n0 (concat (b # bs)) new1"
      using new1(3) by (simp add: aligned_extend)
    moreover have "\<not> (embeddings_answer S (concat (b # bs)) \<and> upserts_accepted S E)"
      using new1(5) Inl by (auto simp: embeddings_answer_append)
    ultimately show ?thesis
      using new1(1,2) by (intro exI [of _ new1]) simp
  next
    case (Inr t1)
    then have t1: "t1 = int (n0 + length b)" "length new1 = length b"
      "uuid_count W1 = uuid_count W + length b"
      using new1(4) by simp_all
    have rest: "embed_upsert_loop build S E R meta bs (int (n0 + length b)) W1 = (res, W')"
      using Cons.prems(1) first Inr t1(1) by simp
    have mr: "(n0 + length b) + length (concat bs) \<le> length meta"
      using Cons.prems(2) by simp
    from Cons.IH [OF rest mr] obtain new2 where new2:
      "upserted W' = upserted W1 @ new2" "collections W' = collections W1"
      "aligned S meta (uuid_count W1) (n0 + length b) (concat bs) new2"
      "\<forall>t. res = Inr t \<longrightarrow> t = int (n0 + length b + length (concat bs))
            \<and> length new2 = length (concat bs)
            \<and> uuid_count W' = uuid_count W1 + length (concat bs)"
      "embeddings_answer S (concat bs) \<and> upserts_accepted S E \<longrightarrow> (\<exists>t. res = Inr t)"
      by blast
    have "aligned S meta (uuid_count W) n0 (concat (b # bs)) (new1 @ new2)"
      using aligned_append [OF new1(3) t1(2)] new2(3) by (simp add: t1(3))
    moreover have "upserted W' = upserted W @ new1 @ new2" "collections W' = collections W"
      using new1(1,2) new2(1,2) by simp_all
    moreover have "\<forall>t. res = Inr t \<longrightarrow> t = int (n0 + length (concat (b # bs)))
            \<and> length (new1 @ new2) = length (concat (b # bs))
            \<and> uuid_count W' = uuid_count W + length (concat (b # bs))"
      using new2(4) t1 by auto
    moreover have "embeddings_answer S (concat (b # bs)) \<and> upserts_accepted S E \<longrightarrow>
        (\<exists>t. res = Inr t)"
      using new2(5) by (simp add: embeddings_answer_append)
    ultimately show ?thesis
      by (intro exI [of _ "new1 @ new2"]) simp
  qed
qed

lemma embed_upsert_all_spec:
  assumes build: "builds_points build"
    and eb: "0 < EMBED_BATCH R" and ub: "0 < UPSERT_BATCH R"
    and meta: "length meta = length all_chunks"
    and run: "embed_upsert_all build S E R all_chunks meta W = (res, W')"
  shows "\<exists>new. upserted W' = upserted W @ new \<and> collections W' = collections W
           \<and> aligned S meta (uuid_count W) 0 all_chunks new
           \<and> (\<forall>t. res = Inr t \<longrightarrow> t = int (length all_chunks)
                  \<and> length new = length all_chunks
                  \<and> uuid_count W' = uuid_count W + length all_chunks)
           \<and> (embeddings_answer S all_chunks \<and> upserts_accepted S E \<longrightarrow> (\<exists>t. res = Inr t))"
proof -
  obtain bs where bs: "chunk_list all_chunks (EMBED_BATCH R) = Inr bs" "concat bs = all_chunks"
    using chunk_list_concat [OF eb] by blast
  have "embed_upsert_loop build S E R meta bs (int 0) W = (res, W')"
    using run bs(1) by (simp add: embed_upsert_all_def)
  from embed_upsert_loop_spec [OF build ub this] meta bs(2) show ?thesis
    by simp
qed

lemma append_chunks_eq:
  "append_chunks project filename chs (co, mo) =
     (co @ chs, mo @ replicate (length chs) \<lparr>m_project = project, m_file = filename\<rparr>)"
  by (induction chs arbitrary: co mo) (simp_all add: replicate_app_Cons_same)

lemma ingest_bytes_Inr:
  assumes "ingest_bytes X R filename content_type raw project (co, mo) = Some (Inr (co', mo'))"
  shows "\<exists>text chs. extract_text X filename content_type raw = Inr text
           \<and> chunks text (CHUNK_SIZE R) (CHUNK_OVERLAP R) = Some chs
           \<and> co' = co @ chs
           \<and> mo' = mo @ replicate (length chs) \<lparr>m_project = project, m_file = filename\<rparr>"
  using assms
  by (auto simp: ingest_bytes_def append_chunks_eq split: sum.splits option.splits)

section \<open>Vectors, texts and metadata stay aligned\<close>

text \<open>
  Claim C3. \<open>ingest_bytes\<close> extends the chunk list and the metadata list in parallel: one
  record with the document's project and file name per chunk. And for any chunk list,
  any metadata list of the same length and any batch sizes \<open>EMBED_BATCH > 0\<close> and
  \<open>UPSERT_BATCH > 0\<close>, the nested loops of \<open>ingest\<close> and of \<open>ingest_urls\<close> upsert, in order,
  points of which the \<open>k\<close>-th carries the vector that \<open>embed_batch\<close> gives for chunk \<open>k\<close>,
  the text of chunk \<open>k\<close> and the project and file of the metadata record \<open>k\<close>, whether the
  run ends or is cut short by an exception of a remote service; a run that ends has
  upserted one point per chunk and counts them all.
\<close>

theorem ingestion_points_aligned:
  "(\<forall>co mo co' mo'.
      ingest_bytes X R filename content_type raw project (co, mo) = Some (Inr (co', mo')) \<longrightarrow>
      (\<exists>chs. co' = co @ chs
           \<and> mo' = mo @ replicate (length chs) \<lparr>m_project = project, m_file = filename\<rparr>))
   \<and> (\<forall>build. (build = ingest_pts \<or> build = ingest_urls_pts)
        \<and> 0 < EMBED_BATCH R \<and> 0 < UPSERT_BATCH R \<and> length meta = length all_chunks \<longrightarrow>
        (\<exists>new. upserted (snd (embed_upsert_all build S E R all_chunks meta W)) = upserted W @ new
           \<and> length new \<le> length all_chunks
           \<and> (\<forall>k<length new.
                  embed_batch S [all_chunks ! k] = Inr [pt_vector (new ! k)]
                \<and> p_text (pt_payload (new ! k)) = all_chunks ! k
                \<and> p_project (pt_payload (new ! k)) = m_project (meta ! k)
                \<and> p_file (pt_payload (new ! k)) = m_file (meta ! k))
           \<and> (\<forall>t. fst (embed_upsert_all build S E R all_chunks meta W) = Inr t \<longrightarrow>
                  length new = length all_chunks \<and> t = int (length all_chunks))))"
proof (intro conjI allI impI)
  fix co mo co' mo'
  assume "ingest_bytes X R filename content_type raw project (co, mo) = Some (Inr (co', mo'))"
  from ingest_bytes_Inr [OF this]
  show "\<exists>chs. co' = co @ chs
           \<and> mo' = mo @ replicate (length chs) \<lparr>m_project = project, m_file = filename\<rparr>"
    by blast
next
  fix build :: "'b pts_builder"
  assume a: "(build = ingest_pts \<or> build = ingest_urls_pts)
        \<and> 0 < EMBED_BATCH R \<and> 0 < UPSERT_BATCH R \<and> length meta = length all_chunks"
  then have build: "builds_points build"
    using builds_points_ingest builds_points_ingest_urls by blast
  obtain res W' where run: "embed_upsert_all build S E R all_chunks meta W = (res, W')"
    by (cases "embed_upsert_all build S E R all_chunks meta W")
  from embed_upsert_all_spec [OF build _ _ _ run] a obtain new where new:
    "upserted W' = upserted W @ new" "aligned S meta (uuid_count W) 0 all_chunks new"
    "\<forall>t. res = Inr t \<longrightarrow> t = int (length all_chunks) \<and> length new = length all_chunks"
    by blast
  have "embed_batch S [all_chunks ! k] = Inr [pt_vector (new ! k)]
      \<and> p_text (pt_payload (new ! k)) = all_chunks ! k
      \<and> p_project (pt_payload (new ! k)) = m_project (meta ! k)
      \<and> p_file (pt_payload (new ! k)) = m_file (meta ! k)" if "k < length new" for k
    using new(2) that by (simp add: aligned_def embed_batch_Inr)
  moreover have "length new \<le> length all_chunks"
    using new(2) by (simp add: aligned_def)
  ultimately show "\<exists>new. upserted (snd (embed_upsert_all build S E R all_chunks meta W))
             = upserted W @ new
           \<and> length new \<le> length all_chunks
           \<and> (\<forall>k<length new.
                  embed_batch S [all_chunks ! k] = Inr [pt_vector (new ! k)]
                \<and> p_text (pt_payload (new ! k)) = all_chunks ! k
                \<and> p_project (pt_payload (new ! k)) = m_project (meta ! k)
                \<and> p_file (pt_payload (new ! k)) = m_file (meta ! k))
           \<and> (\<forall>t. fst (embed_upsert_all build S E R all_chunks meta W) = Inr t \<longrightarrow>
                  length new = length all_chunks \<and> t = int (length all_chunks))"
    using new(1,3) run by (intro exI [of _ new]) simp
qed

theorem ingestion_points_aligned_witness:
  "0 < EMBED_BATCH demo_runtime \<and> 0 < UPSERT_BATCH demo_runtime
   \<and> length demo_meta = length demo_chunks
   \<and> embed_upsert_all ingest_pts demo_services settings_default demo_runtime demo_chunks demo_meta
         empty_world
       = (Inr 3, \<lparr>collections = [], upserted = demo_points, uuid_count = 3\<rparr>)
   \<and> embed_upsert_all ingest_urls_pts demo_services settings_default demo_runtime demo_chunks
         demo_meta empty_world
       = (Inr 3, \<lparr>collections = [], upserted = demo_points, uuid_count = 3\<rparr>)
   \<and> length demo_points = length demo_chunks
   \<and> p_text (pt_payload (demo_points ! 2)) = demo_chunks ! 2
   \<and> p_file (pt_payload (demo_points ! 2)) = m_file (demo_meta ! 2)
   \<and> embed_batch demo_services [demo_chunks ! 2] = Inr [pt_vector (demo_points ! 2)]
   \<and> ingest_bytes demo_services demo_runtime ''a.txt'' [] (ascii_encode ''hello'') ''p''
         ([''x''], [\<lparr>m_project = ''q'', m_file = ''x.txt''\<rparr>])
       = Some (Inr ([''x''] @ [''hello''],
           [\<lparr>m_project = ''q'', m_file = ''x.txt''\<rparr>]
             @ replicate (length [''hello'']) \<lparr>m_project = ''p'', m_file = ''a.txt''\<rparr>))"
proof -
  have bytes: "ingest_bytes demo_services demo_runtime ''a.txt'' [] (ascii_encode ''hello'') ''p''
         ([''x''], [\<lparr>m_project = ''q'', m_file = ''x.txt''\<rparr>])
       = Some (Inr ([''x''] @ [''hello''],
           [\<lparr>m_project = ''q'', m_file = ''x.txt''\<rparr>]
             @ replicate (length [''hello'']) \<lparr>m_project = ''p'', m_file = ''a.txt''\<rparr>))"
    by code_simp
  have hyps: "0 < EMBED_BATCH demo_runtime" "0 < UPSERT_BATCH demo_runtime"
    "length demo_meta = length demo_chunks"
    by code_simp+
  have run1: "embed_upsert_all ingest_pts demo_services settings_default demo_runtime demo_chunks
      demo_meta empty_world = (Inr 3, \<lparr>collections = [], upserted = demo_points, uuid_count = 3\<rparr>)"
    by code_simp
  have run2: "embed_upsert_all ingest_urls_pts demo_services settings_default demo_runtime
      demo_chunks demo_meta empty_world
      = (Inr 3, \<lparr>collections = [], upserted = demo_points, uuid_count = 3\<rparr>)"
    by code_simp
  have start: "upserted empty_world = []"
    by (simp add: empty_world_def)
  from ingestion_points_aligned [of demo_services demo_runtime "''a.txt''" "[]"
      "ascii_encode ''hello''" "''p''" demo_meta demo_chunks demo_services settings_default
      empty_world]
    hyps run1 start
  obtain new where new: "demo_points = new" "\<forall>k<length new.
                  embed_batch demo_services [demo_chunks ! k] = Inr [pt_vector (new ! k)]
                \<and> p_text (pt_payload (new ! k)) = demo_chunks ! k
                \<and> p_project (pt_payload (new ! k)) = m_project (demo_meta ! k)
                \<and> p_file (pt_payload (new ! k)) = m_file (demo_meta ! k)"
    "length new = length demo_chunks"
    by auto
  have "2 < length demo_points"
    using new(1,3) by (simp add: demo_chunks_def)
  then have "p_text (pt_payload (demo_points ! 2)) = demo_chunks ! 2"
    "p_file (pt_payload (demo_points ! 2)) = m_file (demo_meta ! 2)"
    "embed_batch demo_services [demo_chunks ! 2] = Inr [pt_vector (demo_points ! 2)]"
    using new(1,2) by blast+
  then show ?thesis
    using hyps run1 run2 new(1,3) bytes by simp
qed

section \<open>Whole ingestion runs\<close>

lemma upt_0_3: "[0..<3] = [0, 1, 2]"
  by (simp add: upt_rec)

lemma chunks_1480:
  assumes "length text = 1480"
  shows "chunks text 800 120 =
           Some [take 800 text, take 800 (drop 680 text), take 800 (drop 1360 text)]"
proof -
  have step: "chunk_step 800 120 = 680"
    by (simp add: chunk_step_def)
  have n: "nat \<lceil>real (length text) / 680\<rceil> = 3"
    using assms by simp
  show ?thesis
    by (simp add: chunks_closed step n upt_0_3 chunk_at_take_drop)
qed

lemma ingest_files_single:
  "ingest_files X R project [f] outs =
     ingest_bytes X R (uf_filename f) (case uf_content_type f of None \<Rightarrow> [] | Some c \<Rightarrow> c)
       (uf_read f) project outs"
  by (simp split: option.splits sum.splits)

lemma ingest_success:
  assumes files: "ingest_files S R project files ([], []) = Some (Inr (all_chunks, meta))"
    and len: "length meta = length all_chunks"
    and eb: "0 < EMBED_BATCH R" and ub: "0 < UPSERT_BATCH R"
    and answers: "embeddings_answer S all_chunks" and accepted: "upserts_accepted S E"
  shows "\<exists>W' new. ingest S E R files project W =
            Some (Inr \<lparr>ir_ok = True, ir_project = project, ir_chunks = int (length all_chunks),
                       ir_files = map uf_filename files\<rparr>, W')
          \<and> upserted W' = upserted W @ new \<and> collections W' = collections W
          \<and> length new = length all_chunks
          \<and> aligned S meta (uuid_count W) 0 all_chunks new"
proof -
  obtain res W' where run: "embed_upsert_all ingest_pts S E R all_chunks meta W = (res, W')"
    by (cases "embed_upsert_all ingest_pts S E R all_chunks meta W")
  from embed_upsert_all_spec [OF builds_points_ingest eb ub len run] answers accepted
  obtain new t where new: "upserted W' = upserted W @ new" "collections W' = collections W"
    "aligned S meta (uuid_count W) 0 all_chunks new" "res = Inr t"
    "t = int (length all_chunks)" "length new = length all_chunks"
    by blast
  have "ingest S E R files project W =
      Some (Inr \<lparr>ir_ok = True, ir_project = project, ir_chunks = int (length all_chunks),
                 ir_files = map uf_filename files\<rparr>, W')"
    using files run new(4,5) by (simp add: ingest_def)
  with new show ?thesis by blast
qed

lemma list3_nth: "length xs = 3 \<Longrightarrow> xs = [xs ! 0, xs ! 1, xs ! 2]"
  by (cases xs; cases "tl xs"; cases "tl (tl xs)") auto

lemma ingest_1480:
  assumes ext: "extract_text S (uf_filename f)
          (case uf_content_type f of None \<Rightarrow> [] | Some c \<Rightarrow> c) (uf_read f) = Inr text"
    and len: "int (length text) = 2 * CHUNK_SIZE RUNTIME_default - CHUNK_OVERLAP RUNTIME_default"
    and answers: "embeddings_answer S [take 800 text, take 800 (drop 680 text), drop 1360 text]"
    and accepted: "upserts_accepted S E"
  shows "chunks text (CHUNK_SIZE RUNTIME_default) (CHUNK_OVERLAP RUNTIME_default)
           = Some [take 800 text, take 800 (drop 680 text), drop 1360 text]
       \<and> (\<exists>W' p0 p1 p2.
            ingest S E RUNTIME_default [f] project W =
              Some (Inr \<lparr>ir_ok = True, ir_project = project, ir_chunks = 3,
                         ir_files = [uf_filename f]\<rparr>, W')
          \<and> upserted W' = upserted W @ [p0, p1, p2]
          \<and> map (\<lambda>p. p_text (pt_payload p)) [p0, p1, p2]
              = [take 800 text, take 800 (drop 680 text), drop 1360 text]
          \<and> map (\<lambda>p. p_project (pt_payload p)) [p0, p1, p2] = [project, project, project]
          \<and> map (\<lambda>p. p_file (pt_payload p)) [p0, p1, p2]
              = [uf_filename f, uf_filename f, uf_filename f])"
proof -
  define cs where "cs = [take 800 text, take 800 (drop 680 text), drop 1360 text]"
  define m where "m = \<lparr>m_project = project, m_file = uf_filename f\<rparr>"
  have l: "length text = 1480"
    using len by (simp add: RUNTIME_default_eq)
  have ch: "chunks text (CHUNK_SIZE RUNTIME_default) (CHUNK_OVERLAP RUNTIME_default) = Some cs"
    using chunks_1480 [OF l] l by (simp add: RUNTIME_default_eq cs_def)
  have files: "ingest_files S RUNTIME_default project [f] ([], []) = Some (Inr (cs, [m, m, m]))"
    using ext ch
    by (simp add: ingest_files_single ingest_bytes_def append_chunks_eq cs_def m_def
        numeral_3_eq_3)
  have cfg: "0 < EMBED_BATCH RUNTIME_default" "0 < UPSERT_BATCH RUNTIME_default"
    by (simp_all add: RUNTIME_default_eq)
  have "length [m, m, m] = length cs"
    by (simp add: cs_def)
  from ingest_success [OF files this cfg _ accepted, where W = W] answers
  obtain W' new where run: "ingest S E RUNTIME_default [f] project W =
      Some (Inr \<lparr>ir_ok = True, ir_project = project, ir_chunks = int (length cs),
                 ir_files = map uf_filename [f]\<rparr>, W')"
    and new: "upserted W' = upserted W @ new" "length new = length cs"
      "aligned S [m, m, m] (uuid_count W) 0 cs new"
    unfolding cs_def by blast
  have n3: "length new = 3"
    using new(2) by (simp add: cs_def)
  have pay: "p_text (pt_payload (new ! i)) = cs ! i
      \<and> p_project (pt_payload (new ! i)) = m_project ([m, m, m] ! i)
      \<and> p_file (pt_payload (new ! i)) = m_file ([m, m, m] ! i)" if "i < 3" for i
    using new(3) that n3 by (simp add: aligned_def)
  have "new = [new ! 0, new ! 1, new ! 2]"
    using n3 by (rule list3_nth)
  moreover have "map (\<lambda>p. p_text (pt_payload p)) [new ! 0, new ! 1, new ! 2] = cs"
    using pay [of 0] pay [of 1] pay [of 2] by (simp add: cs_def)
  moreover have "map (\<lambda>p. p_project (pt_payload p)) [new ! 0, new ! 1, new ! 2]
      = [project, project, project]"
    using pay [of 0] pay [of 1] pay [of 2] by (simp add: m_def)
  moreover have "map (\<lambda>p. p_file (pt_payload p)) [new ! 0, new ! 1, new ! 2]
      = [uf_filename f, uf_filename f, uf_filename f]"
    using pay [of 0] pay [of 1] pay [of 2] by (simp add: m_def)
  ultimately have "\<exists>W' p0 p1 p2.
            ingest S E RUNTIME_default [f] project W =
              Some (Inr \<lparr>ir_ok = True, ir_project = project, ir_chunks = 3,
                         ir_files = [uf_filename f]\<rparr>, W')
          \<and> upserted W' = upserted W @ [p0, p1, p2]
          \<and> map (\<lambda>p. p_text (pt_payload p)) [p0, p1, p2] = cs
          \<and> map (\<lambda>p. p_project (pt_payload p)) [p0, p1, p2] = [project, project, project]
          \<and> map (\<lambda>p. p_file (pt_payload p)) [p0, p1, p2]
              = [uf_filename f, uf_filename f, uf_filename f]"
    using run new(1) by (intro exI [of _ W'] exI [of _ "new ! 0"] exI [of _ "new ! 1"]
        exI [of _ "new ! 2"]) (simp add: cs_def)
  with ch show ?thesis
    by (simp add: cs_def)
qed

lemma chunks_total: "\<exists>chs. chunks s csize overlap = Some chs"
  by (simp add: chunks_closed)

lemma ingest_bytes_shift:
  "ingest_bytes X R filename content_type raw project (co, mo) =
     (case ingest_bytes X R filename content_type raw project ([], []) of
        None \<Rightarrow> None
      | Some (Inl e) \<Rightarrow> Some (Inl e)
      | Some (Inr (cs, ms)) \<Rightarrow> Some (Inr (co @ cs, mo @ ms)))"
  by (simp add: ingest_bytes_def append_chunks_eq split: sum.splits option.splits)

lemma ingest_bytes_parallel:
  "ingest_bytes X R filename content_type raw project ([], []) = Some (Inr (cs, ms)) \<Longrightarrow>
     length ms = length cs"
  by (auto dest: ingest_bytes_Inr)

lemma ingest_bytes_returns:
  "ingest_bytes X R filename content_type raw project outs \<noteq> None"
  by (simp add: ingest_bytes_def chunks_closed split: sum.splits)

lemma ingest_url_cases:
  "(\<not> url_ok S R body u \<and> url_chunks S R body u = []
      \<and> (\<exists>e. ingest_url S R body u (co, mo) = Some (Inl e)))
   \<or> (url_ok S R body u
      \<and> (\<exists>ms. length ms = length (url_chunks S R body u)
            \<and> ingest_url S R body u (co, mo) = Some (Inr (co @ url_chunks S R body u, mo @ ms))))"
proof (cases "http_get S u (ui_bearer body)")
  case (Inl e)
  then show ?thesis
    by (simp add: url_ok_def url_chunks_def ingest_url_def)
next
  case (Inr data)
  let ?b = "\<lambda>outs. ingest_bytes S R (url_fname u) (url_ctype (lower u)) data (ui_project body) outs"
  have url: "ingest_url S R body u outs = ?b outs" for outs
    using Inr by (simp add: ingest_url_def)
  show ?thesis
  proof (cases "?b ([], [])")
    case None
    then show ?thesis using ingest_bytes_returns by blast
  next
    case (Some r)
    show ?thesis
    proof (cases r)
      case (Inl e)
      then have "?b (co, mo) = Some (Inl e)"
        using Some by (subst ingest_bytes_shift) simp
      then show ?thesis
        using Some Inl by (simp add: url url_ok_def url_chunks_def)
    next
      case (Inr outs)
      obtain cs ms where outs: "outs = (cs, ms)" by (cases outs)
      have len: "length ms = length cs"
        using Some Inr outs by (auto intro: ingest_bytes_parallel)
      have "?b (co, mo) = Some (Inr (co @ cs, mo @ ms))"
        using Some Inr outs by (subst ingest_bytes_shift) simp
      then show ?thesis
        using Some Inr outs len by (auto simp: url url_ok_def url_chunks_def)
    qed
  qed
qed

lemma ingest_urls_fetch_spec:
  "length mo = length co \<Longrightarrow>
   \<exists>ms. length ms = length (concat (map (url_chunks S R body) (filter (url_ok S R body) urls)))
     \<and> ingest_urls_fetch S R body urls (co, mo) fetched =
          Some ((co @ concat (map (url_chunks S R body) (filter (url_ok S R body) urls)), mo @ ms),
                fetched + int (length (filter (url_ok S R body) urls)))"
proof (induction urls arbitrary: co mo fetched)
  case Nil
  then show ?case by simp
next
  case (Cons u urls)
  from ingest_url_cases [of S R body u co mo] show ?case
  proof (elim disjE conjE exE)
    fix e
    assume bad: "\<not> url_ok S R body u" "ingest_url S R body u (co, mo) = Some (Inl e)"
    from Cons.IH [OF Cons.prems, of fetched] obtain ms where
      "length ms = length (concat (map (url_chunks S R body) (filter (url_ok S R body) urls)))"
      "ingest_urls_fetch S R body urls (co, mo) fetched =
          Some ((co @ concat (map (url_chunks S R body) (filter (url_ok S R body) urls)), mo @ ms),
                fetched + int (length (filter (url_ok S R body) urls)))"
      by blast
    then show ?thesis
      using bad by (intro exI [of _ ms]) simp
  next
    fix ms1
    assume ok: "url_ok S R body u" "length ms1 = length (url_chunks S R body u)"
      "ingest_url S R body u (co, mo) = Some (Inr (co @ url_chunks S R body u, mo @ ms1))"
    have "length (mo @ ms1) = length (co @ url_chunks S R body u)"
      using Cons.prems ok(2) by simp
    from Cons.IH [OF this, of "fetched + 1"] obtain ms where
      "length ms = length (concat (map (url_chunks S R body) (filter (url_ok S R body) urls)))"
      "ingest_urls_fetch S R body urls (co @ url_chunks S R body u, mo @ ms1) (fetched + 1) =
          Some (((co @ url_chunks S R body u)
                   @ concat (map (url_chunks S R body) (filter (url_ok S R body) urls)),
                 (mo @ ms1) @ ms),
                fetched + 1 + int (length (filter (url_ok S R body) urls)))"
      by blast
    then show ?thesis
      using ok by (intro exI [of _ "ms1 @ ms"]) simp
  qed
qed

section \<open>A document of two windows less the overlap\<close>

lemma demo_txt_dispatch:
  "lower ''doc.txt'' = ''doc.txt''" "lower ''text/plain'' = ''text/plain''"
  "\<not> endswith ''doc.txt'' ''.pdf''" "\<not> contains ''pdf'' ''text/plain''"
  "\<not> endswith ''doc.txt'' ''.docx''" "\<not> contains ''word'' ''text/plain''"
  "\<not> endswith ''doc.txt'' ''.pptx''" "\<not> contains ''powerpoint'' ''text/plain''"
  "\<not> endswith ''doc.txt'' ''.csv''" "\<not> contains ''csv'' ''text/plain''"
  "\<not> endswith ''doc.txt'' ''.xlsx''" "\<not> endswith ''doc.txt'' ''.xls''"
  "\<not> endswith ''doc.txt'' ''.md''" "endswith ''doc.txt'' ''.txt''"
  by code_simp+

lemma demo_extract_txt:
  "extract_text demo_services ''doc.txt'' ''text/plain'' b = ascii_decode b"
  by (simp add: extract_text_def extract_try_def demo_txt_dispatch returning_def
      extract_text_from_txt_def demo_services_def ascii_decode_def)

lemma ascii_roundtrip_a:
  "ascii_decode (ascii_encode (replicate n CHR ''a'')) = Inr (replicate n CHR ''a'')"
proof -
  have "(of_nat (of_char CHR ''a'') :: 8 word) < 128" by code_simp
  moreover have "char_of (unat (of_nat (of_char CHR ''a'') :: 8 word)) = CHR ''a''" by code_simp
  ultimately show ?thesis
    by (simp add: ascii_decode_def ascii_encode_def)
qed

lemma demo_answers: "length t \<noteq> 4 \<Longrightarrow> \<exists>v. embedding_for demo_services t = Inr v"
  by (auto simp: embedding_for_def demo_services_def)

lemma demo_accepts: "upserts_accepted demo_services E"
  by (simp add: upserts_accepted_def demo_services_def)

lemma demo_upload_facts:
  "extract_text demo_services (uf_filename demo_upload)
     (case uf_content_type demo_upload of None \<Rightarrow> [] | Some c \<Rightarrow> c) (uf_read demo_upload)
     = Inr (replicate 1480 CHR ''a'')"
  "int (length (replicate 1480 CHR ''a''))
     = 2 * CHUNK_SIZE RUNTIME_default - CHUNK_OVERLAP RUNTIME_default"
  "embeddings_answer demo_services
     [take 800 (replicate 1480 CHR ''a''), take 800 (drop 680 (replicate 1480 CHR ''a'')),
      drop 1360 (replicate 1480 CHR ''a'')]"
  by (simp_all add: demo_upload_def demo_extract_txt ascii_roundtrip_a RUNTIME_default_eq
      embeddings_answer_def demo_answers)

text \<open>
  Claim C5, as the code has it. Under the default configuration (\<open>CHUNK_SIZE = 800\<close>,
  \<open>CHUNK_OVERLAP = 120\<close>) a document whose text has exactly
  \<open>2 * CHUNK_SIZE - CHUNK_OVERLAP = 1480\<close> characters gives exactly 3 chunks, at the
  offsets 0, 680 and 1360 (the last one holds the final 120 characters), and, when the
  embedding service and the vector store answer, exactly 3 upserted points, each tagged
  with the given project and file name; the response counts 3 chunks.
\<close>

theorem ingest_1480_three_points:
  assumes "extract_text S (uf_filename f)
          (case uf_content_type f of None \<Rightarrow> [] | Some c \<Rightarrow> c) (uf_read f) = Inr text"
    and "int (length text) = 2 * CHUNK_SIZE RUNTIME_default - CHUNK_OVERLAP RUNTIME_default"
    and "embeddings_answer S [take 800 text, take 800 (drop 680 text), drop 1360 text]"
    and "upserts_accepted S E"
  shows "chunks text (CHUNK_SIZE RUNTIME_default) (CHUNK_OVERLAP RUNTIME_default)
           = Some [take 800 text, take 800 (drop 680 text), drop 1360 text]
       \<and> (\<exists>W' p0 p1 p2.
            ingest S E RUNTIME_default [f] project W =
              Some (Inr \<lparr>ir_ok = True, ir_project = project, ir_chunks = 3,
                         ir_files = [uf_filename f]\<rparr>, W')
          \<and> upserted W' = upserted W @ [p0, p1, p2]
          \<and> map (\<lambda>p. p_text (pt_payload p)) [p0, p1, p2]
              = [take 800 text, take 800 (drop 680 text), drop 1360 text]
          \<and> map (\<lambda>p. p_project (pt_payload p)) [p0, p1, p2] = [project, project, project]
          \<and> map (\<lambda>p. p_file (pt_payload p)) [p0, p1, p2]
              = [uf_filename f, uf_filename f, uf_filename f])"
  using assms by (rule ingest_1480)

theorem ingest_1480_three_points_witness:
  "extract_text demo_services (uf_filename demo_upload)
     (case uf_content_type demo_upload of None \<Rightarrow> [] | Some c \<Rightarrow> c) (uf_read demo_upload)
     = Inr (replicate 1480 CHR ''a'')
   \<and> int (length (replicate 1480 CHR ''a''))
       = 2 * CHUNK_SIZE RUNTIME_default - CHUNK_OVERLAP RUNTIME_default
   \<and> (\<exists>W' p0 p1 p2.
         ingest demo_services settings_default RUNTIME_default [demo_upload] ''proj'' empty_world =
           Some (Inr \<lparr>ir_ok = True, ir_project = ''proj'', ir_chunks = 3,
                      ir_files = [''doc.txt'']\<rparr>, W')
       \<and> upserted W' = [p0, p1, p2]
       \<and> map (\<lambda>p. p_file (pt_payload p)) [p0, p1, p2] = [''doc.txt'', ''doc.txt'', ''doc.txt''])"
proof -
  have "upserted empty_world = []" "uf_filename demo_upload = ''doc.txt''"
    by (simp_all add: empty_world_def demo_upload_def)
  then show ?thesis
    using ingest_1480_three_points [OF demo_upload_facts demo_accepts,
        of settings_default "''proj''" empty_world] demo_upload_facts(1,2)
    by auto
qed

text \<open>
  The document of 1480 letters \<open>a\<close>, uploaded as \<open>doc.txt\<close>: the chunker returns three
  chunks, and the run stores three points, not two.
\<close>

theorem ingest_1480_counterexample:
  "int (length (replicate 1480 CHR ''a''))
     = 2 * CHUNK_SIZE RUNTIME_default - CHUNK_OVERLAP RUNTIME_default
   \<and> extract_text demo_services (uf_filename demo_upload)
       (case uf_content_type demo_upload of None \<Rightarrow> [] | Some c \<Rightarrow> c) (uf_read demo_upload)
       = Inr (replicate 1480 CHR ''a'')
   \<and> chunks (replicate 1480 CHR ''a'') (CHUNK_SIZE RUNTIME_default) (CHUNK_OVERLAP RUNTIME_default)
       = Some [replicate 800 CHR ''a'', replicate 800 CHR ''a'', replicate 120 CHR ''a'']
   \<and> map_option fst
        (ingest demo_services settings_default RUNTIME_default [demo_upload] ''proj'' empty_world)
       = Some (Inr \<lparr>ir_ok = True, ir_project = ''proj'', ir_chunks = 3, ir_files = [''doc.txt'']\<rparr>)
   \<and> map_option (length \<circ> upserted \<circ> snd)
        (ingest demo_services settings_default RUNTIME_default [demo_upload] ''proj'' empty_world)
       = Some 3"
proof -
  have "upserted empty_world = []" "uf_filename demo_upload = ''doc.txt''"
    by (simp_all add: empty_world_def demo_upload_def)
  then show ?thesis
    using ingest_1480 [OF demo_upload_facts demo_accepts,
        of settings_default "''proj''" empty_world] demo_upload_facts(1,2)
    by auto
qed

section \<open>The vector of a blank chunk\<close>

text \<open>
  Claim C4. Every point upserted by an ingestion entry point should carry a vector of
  the size the collection was created with at startup, the length of the probe's
  embedding. The vector of a blank chunk does not: it has 768 components whatever the
  probe returned. With an embedding service of 4 components, startup creates the
  collection \<open>docs\<close> with size 4; the upload of a text file that holds one space and of
  one that holds \<open>hello\<close> then upserts a vector of 768 components for the first and of
  4 for the second.
\<close>

theorem blank_chunk_vector_size:
  "start demo_services settings_default empty_world
     = (Inr (), \<lparr>collections = [(''docs'', 4)], upserted = [], uuid_count = 0\<rparr>)
   \<and> map_option fst
        (ingest demo_services settings_default RUNTIME_default [blank_upload, hello_upload] ''proj''
           (snd (start demo_services settings_default empty_world)))
       = Some (Inr \<lparr>ir_ok = True, ir_project = ''proj'', ir_chunks = 2,
                    ir_files = [''blank.txt'', ''a.txt'']\<rparr>)
   \<and> map_option (map (\<lambda>p. (p_text (pt_payload p), length (pt_vector p))) \<circ> upserted \<circ> snd)
        (ingest demo_services settings_default RUNTIME_default [blank_upload, hello_upload] ''proj''
           (snd (start demo_services settings_default empty_world)))
       = Some [('' '', 768), (''hello'', 4)]
   \<and> map_option (collections \<circ> snd)
        (ingest demo_services settings_default RUNTIME_default [blank_upload, hello_upload] ''proj''
           (snd (start demo_services settings_default empty_world)))
       = Some [(''docs'', 4)]"
  by code_simp

section \<open>URL ingestion with failing documents\<close>

lemma aligned_texts:
  assumes "aligned S meta u0 n0 cs new" "length new = length cs"
  shows "map (\<lambda>p. p_text (pt_payload p)) new = cs"
  using assms by (auto simp: aligned_def list_eq_iff_nth_eq)

lemma http_get_fails:
  "http_get_api S u (authorization bearer) = Inr (status, content) \<Longrightarrow> status \<noteq> 200 \<Longrightarrow>
     \<exists>e. http_get S u bearer = Inl e"
  "http_get_api S u (authorization bearer) = Inl e \<Longrightarrow> http_get S u bearer = Inl e"
  by (simp_all add: http_get_def)

lemma url_not_fetched:
  "http_get S u (ui_bearer body) = Inl e \<Longrightarrow> \<not> url_ok S R body u \<and> url_chunks S R body u = []"
  by (simp add: url_ok_def url_chunks_def ingest_url_def)

lemma ingest_urls_success:
  assumes eb: "0 < EMBED_BATCH R" and ub: "0 < UPSERT_BATCH R"
    and answers: "embeddings_answer S
        (concat (map (url_chunks S R body) (filter (url_ok S R body) (ui_urls body))))"
    and accepted: "upserts_accepted S E"
  shows "\<exists>W'. ingest_urls S E R body W =
            Some (Inr \<lparr>ur_ok = True, ur_project = ui_project body,
                       ur_fetched = int (length (filter (url_ok S R body) (ui_urls body))),
                       ur_chunks = int (length (concat (map (url_chunks S R body)
                                     (filter (url_ok S R body) (ui_urls body)))))\<rparr>, W')
          \<and> map (\<lambda>p. p_text (pt_payload p)) (drop (length (upserted W)) (upserted W'))
              = concat (map (url_chunks S R body) (filter (url_ok S R body) (ui_urls body)))"
proof -
  define cs where
    "cs = concat (map (url_chunks S R body) (filter (url_ok S R body) (ui_urls body)))"
  obtain ms where ms: "length ms = length cs"
    and fetch: "ingest_urls_fetch S R body (ui_urls body) ([], []) 0 =
                  Some ((cs, ms), int (length (filter (url_ok S R body) (ui_urls body))))"
    using ingest_urls_fetch_spec [of "[]" "[]" S R body "ui_urls body" 0]
    unfolding cs_def by auto
  obtain res W' where run: "embed_upsert_all ingest_urls_pts S E R cs ms W = (res, W')"
    by (cases "embed_upsert_all ingest_urls_pts S E R cs ms W")
  from embed_upsert_all_spec [OF builds_points_ingest_urls eb ub ms run] answers accepted
  obtain new t where new: "upserted W' = upserted W @ new"
    "aligned S ms (uuid_count W) 0 cs new" "res = Inr t"
    "t = int (length cs)" "length new = length cs"
    unfolding cs_def by blast
  have "ingest_urls S E R body W =
      Some (Inr \<lparr>ur_ok = True, ur_project = ui_project body,
                 ur_fetched = int (length (filter (url_ok S R body) (ui_urls body))),
                 ur_chunks = int (length cs)\<rparr>, W')"
    using fetch run new(3,4) by (simp add: ingest_urls_def)
  moreover have "map (\<lambda>p. p_text (pt_payload p)) (drop (length (upserted W)) (upserted W')) = cs"
    using aligned_texts [OF new(2,5)] by (simp add: new(1))
  ultimately show ?thesis
    unfolding cs_def by blast
qed

text \<open>
  Claim C9. In a URL-ingestion request some of whose URLs fail (the fetch raises, the
  answer is not a 200, or processing the document raises) the call does not abort: with
  positive batch sizes, and the embedding service and the vector store answering, it
  returns \<open>ok\<close>; \<open>fetched\<close> is the number of URLs that were fetched and processed;
  \<open>chunks\<close> is the number of chunks of those documents, and the texts of the points it
  upserts are their chunks, in order. A failing URL counts for nothing.
\<close>

theorem ingest_urls_skips_failures:
  assumes "0 < EMBED_BATCH R" and "0 < UPSERT_BATCH R"
    and "embeddings_answer S
        (concat (map (url_chunks S R body) (filter (url_ok S R body) (ui_urls body))))"
    and "upserts_accepted S E"
  shows "(\<exists>W'. ingest_urls S E R body W =
            Some (Inr \<lparr>ur_ok = True, ur_project = ui_project body,
                       ur_fetched = int (length (filter (url_ok S R body) (ui_urls body))),
                       ur_chunks = int (length (concat (map (url_chunks S R body)
                                     (filter (url_ok S R body) (ui_urls body)))))\<rparr>, W')
          \<and> map (\<lambda>p. p_text (pt_payload p)) (drop (length (upserted W)) (upserted W'))
              = concat (map (url_chunks S R body) (filter (url_ok S R body) (ui_urls body))))
       \<and> (\<forall>u status content.
             http_get_api S u (authorization (ui_bearer body)) = Inr (status, content)
             \<and> status \<noteq> 200 \<longrightarrow> \<not> url_ok S R body u \<and> url_chunks S R body u = [])
       \<and> (\<forall>u e. http_get_api S u (authorization (ui_bearer body)) = Inl e \<longrightarrow>
             \<not> url_ok S R body u \<and> url_chunks S R body u = [])"
proof -
  have "\<not> url_ok S R body u \<and> url_chunks S R body u = []"
    if "http_get_api S u (authorization (ui_bearer body)) = Inr (status, content)
        \<and> status \<noteq> 200" for u status content
    using http_get_fails(1) [of S u "ui_bearer body" status content] that url_not_fetched
    by blast
  moreover have "\<not> url_ok S R body u \<and> url_chunks S R body u = []"
    if "http_get_api S u (authorization (ui_bearer body)) = Inl e" for u e
    using http_get_fails(2) [OF that] url_not_fetched by blast
  ultimately show ?thesis
    using ingest_urls_success [OF assms, of W] by blast
qed

lemma demo_urls_facts:
  "filter (url_ok demo_services RUNTIME_default demo_urls) (ui_urls demo_urls)
     = [''http://host/a.txt'', ''http://host/dir/b.md?x=1'']"
  "concat (map (url_chunks demo_services RUNTIME_default demo_urls)
       (filter (url_ok demo_services RUNTIME_default demo_urls) (ui_urls demo_urls)))
     = [''alpha'', ''beta beta'']"
  "http_get_api demo_services ''http://host/missing.txt'' (authorization (ui_bearer demo_urls))
     = Inr (404, [])"
  "http_get_api demo_services ''http://down/c.txt'' (authorization (ui_bearer demo_urls))
     = Inl (LibraryError ''ConnectionError'')"
  by code_simp+

theorem ingest_urls_skips_failures_witness:
  "0 < EMBED_BATCH RUNTIME_default \<and> 0 < UPSERT_BATCH RUNTIME_default
   \<and> ui_urls demo_urls
       = [''http://host/a.txt'', ''http://host/missing.txt'', ''http://host/dir/b.md?x=1'']
   \<and> http_get_api demo_services ''http://host/missing.txt'' (authorization (ui_bearer demo_urls))
       = Inr (404, [])
   \<and> \<not> url_ok demo_services RUNTIME_default demo_urls ''http://host/missing.txt''
   \<and> http_get_api demo_services ''http://down/c.txt'' (authorization (ui_bearer demo_urls))
       = Inl (LibraryError ''ConnectionError'')
   \<and> \<not> url_ok demo_services RUNTIME_default demo_urls ''http://down/c.txt''
   \<and> (\<exists>W'. ingest_urls demo_services settings_default RUNTIME_default demo_urls empty_world =
          Some (Inr \<lparr>ur_ok = True, ur_project = ''p'', ur_fetched = 2, ur_chunks = 2\<rparr>, W')
        \<and> map (\<lambda>p. p_text (pt_payload p)) (upserted W') = [''alpha'', ''beta beta''])"
proof -
  have cfg: "0 < EMBED_BATCH RUNTIME_default" "0 < UPSERT_BATCH RUNTIME_default"
    by (simp_all add: RUNTIME_default_eq)
  have answers: "embeddings_answer demo_services
      (concat (map (url_chunks demo_services RUNTIME_default demo_urls)
         (filter (url_ok demo_services RUNTIME_default demo_urls) (ui_urls demo_urls))))"
    by (simp add: demo_urls_facts(2) embeddings_answer_def demo_answers)
  have more: "upserted empty_world = []" "ui_project demo_urls = ''p''"
    "ui_urls demo_urls
       = [''http://host/a.txt'', ''http://host/missing.txt'', ''http://host/dir/b.md?x=1'']"
    by (simp_all add: empty_world_def demo_urls_def)
  have "(404::nat) \<noteq> 200" by simp
  then show ?thesis
    using ingest_urls_skips_failures [OF cfg answers demo_accepts, where W = empty_world
        and E = settings_default]
      demo_urls_facts cfg more
    by (auto simp: demo_urls_facts(1,2))
qed

end
